theory Spec2Isabelle
  imports Complex_Main "HOL-Library.Word" "HOL-Library.Multiset"
begin

section \<open>Go values\<close>

subsection \<open>float64\<close>

text \<open>
  A \<^verbatim>\<open>float64\<close> is a finite number, one of the two infinities, or NaN. Finite
  values are real numbers and arithmetic on them is exact: rounding and overflow to an
  infinity are not modelled. There is one zero, Go's \<^verbatim>\<open>+0\<close>; Go's \<^verbatim>\<open>-0\<close> compares
  equal to it and differs only as a divisor and inside \<^verbatim>\<open>math.Pow\<close>.
\<close>

datatype float64 = Fin real | PInf | NInf | NaN

text \<open>Go's \<^verbatim>\<open><\<close>, \<^verbatim>\<open><=\<close> and \<^verbatim>\<open>!=\<close>: every ordered comparison with NaN is false,
  and NaN differs from everything, itself included.\<close>

fun flt_lt :: "float64 \<Rightarrow> float64 \<Rightarrow> bool" where
  "flt_lt NaN _ = False"
| "flt_lt _ NaN = False"
| "flt_lt (Fin a) (Fin b) = (a < b)"
| "flt_lt (Fin a) PInf = True"
| "flt_lt (Fin a) NInf = False"
| "flt_lt PInf _ = False"
| "flt_lt NInf NInf = False"
| "flt_lt NInf _ = True"

fun flt_le :: "float64 \<Rightarrow> float64 \<Rightarrow> bool" where
  "flt_le NaN _ = False"
| "flt_le _ NaN = False"
| "flt_le (Fin a) (Fin b) = (a \<le> b)"
| "flt_le NInf _ = True"
| "flt_le _ PInf = True"
| "flt_le _ _ = False"

definition flt_ne :: "float64 \<Rightarrow> float64 \<Rightarrow> bool" where
  "flt_ne a b = (a = NaN \<or> b = NaN \<or> a \<noteq> b)"

fun flt_neg :: "float64 \<Rightarrow> float64" where
  "flt_neg (Fin a) = Fin (- a)"
| "flt_neg PInf = NInf"
| "flt_neg NInf = PInf"
| "flt_neg NaN = NaN"

fun flt_add :: "float64 \<Rightarrow> float64 \<Rightarrow> float64" where
  "flt_add NaN _ = NaN"
| "flt_add _ NaN = NaN"
| "flt_add (Fin a) (Fin b) = Fin (a + b)"
| "flt_add PInf NInf = NaN"
| "flt_add NInf PInf = NaN"
| "flt_add PInf _ = PInf"
| "flt_add _ PInf = PInf"
| "flt_add NInf _ = NInf"
| "flt_add _ NInf = NInf"

definition flt_sub :: "float64 \<Rightarrow> float64 \<Rightarrow> float64" where
  "flt_sub a b = flt_add a (flt_neg b)"

text \<open>The sign of a value other than NaN, as a real number.\<close>

fun flt_sgn :: "float64 \<Rightarrow> real" where
  "flt_sgn (Fin a) = sgn a"
| "flt_sgn PInf = 1"
| "flt_sgn NInf = - 1"
| "flt_sgn NaN = 0"

definition inf_of_sign :: "real \<Rightarrow> float64" where
  "inf_of_sign s = (if s = 0 then NaN else if 0 < s then PInf else NInf)"

fun flt_mul :: "float64 \<Rightarrow> float64 \<Rightarrow> float64" where
  "flt_mul NaN _ = NaN"
| "flt_mul _ NaN = NaN"
| "flt_mul (Fin a) (Fin b) = Fin (a * b)"
| "flt_mul a b = inf_of_sign (flt_sgn a * flt_sgn b)"

text \<open>Division: a finite non-zero value over zero is an infinity of the dividend's
  sign (the zero divisor is \<^verbatim>\<open>+0\<close>), zero over zero is NaN, a finite value over an
  infinity is zero, an infinity over an infinity is NaN.\<close>

fun flt_div :: "float64 \<Rightarrow> float64 \<Rightarrow> float64" where
  "flt_div NaN _ = NaN"
| "flt_div _ NaN = NaN"
| "flt_div (Fin a) (Fin b) = (if b = 0 then inf_of_sign (sgn a) else Fin (a / b))"
| "flt_div (Fin a) _ = Fin 0"
| "flt_div PInf (Fin b) = (if 0 \<le> b then PInf else NInf)"
| "flt_div NInf (Fin b) = (if 0 \<le> b then NInf else PInf)"
| "flt_div _ _ = NaN"

subsection \<open>time.Duration\<close>

text \<open>A \<^verbatim>\<open>time.Duration\<close> is an \<^verbatim>\<open>int64\<close> count of nanoseconds;
  \<^verbatim>\<open>Seconds\<close> reads it as a floating-point number of seconds.\<close>

type_synonym Duration = "64 word"

definition Second :: Duration where
  "Second = 1000000000"

definition Minute :: Duration where
  "Minute = 60 * Second"

definition Seconds :: "Duration \<Rightarrow> float64" where
  "Seconds d = Fin (real_of_int (sint d) / 1000000000)"

text \<open>The conversion \<^verbatim>\<open>time.Duration(x)\<close> of a \<^verbatim>\<open>float64\<close>: the fraction is
  discarded (truncation towards zero). Where the result does not fit an \<^verbatim>\<open>int64\<close>
  Go leaves the value to the implementation; the model takes amd64's, the least
  \<^verbatim>\<open>int64\<close>.\<close>

definition trunc :: "real \<Rightarrow> int" where
  "trunc r = (if 0 \<le> r then \<lfloor>r\<rfloor> else \<lceil>r\<rceil>)"

fun Duration_of :: "float64 \<Rightarrow> Duration" where
  "Duration_of (Fin r) =
     (if - (2 ^ 63) \<le> trunc r \<and> trunc r < 2 ^ 63 then word_of_int (trunc r)
      else word_of_int (- (2 ^ 63)))"
| "Duration_of _ = word_of_int (- (2 ^ 63))"

section \<open>Buckets\<close>

text \<open>
  \<^verbatim>\<open>Bucket\<close> is the interface with the one method \<^verbatim>\<open>Rate() (flow, burst)\<close>; the
  package's two implementations are the structs \<^verbatim>\<open>Rate{Flow, Burst}\<close> and
  \<^verbatim>\<open>Capacity{Window, Min, Max}\<close>. The method is \<open>Bucket_Rate\<close> here, since \<open>Rate\<close>
  is the struct. A nil \<^verbatim>\<open>Bucket\<close>, on which the call of \<^verbatim>\<open>Rate\<close> panics, is not a value
  of the datatype.
\<close>

datatype Bucket = Rate float64 float64 | Capacity Duration float64 float64

fun Bucket_Rate :: "Bucket \<Rightarrow> float64 \<times> float64" where
  "Bucket_Rate (Rate Flow Burst) = (Flow, Burst)"
| "Bucket_Rate (Capacity Window Min_c Max_c) =
     (flt_div Min_c (Seconds Window), flt_sub Max_c Min_c)"

text \<open>A resolved tier: the pair \<^verbatim>\<open>struct{ flow, burst float64 }\<close>.\<close>

type_synonym rate = "float64 \<times> float64"

abbreviation flow :: "rate \<Rightarrow> float64" where
  "flow \<equiv> fst"

abbreviation burst :: "rate \<Rightarrow> float64" where
  "burst \<equiv> snd"

section \<open>Consolidation of the tiers\<close>

text \<open>The comparison both constructors hand to \<^verbatim>\<open>sort.Slice\<close>: by flow, and by
  burst where the flows do not differ.\<close>

definition less_rate :: "rate \<Rightarrow> rate \<Rightarrow> bool" where
  "less_rate ri rj =
     (if flt_ne (flow ri) (flow rj) then flt_lt (flow ri) (flow rj)
      else flt_lt (burst ri) (burst rj))"

text \<open>
  \<^verbatim>\<open>sort.Slice\<close> as insertion sort, which is what Go's implementation runs on a
  short slice (of at most twelve elements, since Go 1.19): each element in turn moves
  left while it is less than its left neighbour. \<open>insert_left\<close> works on the sorted
  prefix in reverse (its head is the element's left neighbour). On tiers without NaN the
  comparison is a strict total order, and then every correct sorting algorithm returns
  this same list (lemma \<open>sort_Slice_unique\<close>).
\<close>

fun insert_left :: "('a \<Rightarrow> 'a \<Rightarrow> bool) \<Rightarrow> 'a \<Rightarrow> 'a list \<Rightarrow> 'a list" where
  "insert_left lt x [] = [x]"
| "insert_left lt x (y # ys) =
     (if lt x y then y # insert_left lt x ys else x # y # ys)"

definition sort_Slice :: "('a \<Rightarrow> 'a \<Rightarrow> bool) \<Rightarrow> 'a list \<Rightarrow> 'a list" where
  "sort_Slice lt xs = rev (foldl (\<lambda>acc x. insert_left lt x acc) [] xs)"

text \<open>One round of the loop that builds the argument list: a tier is appended when
  its burst is less than the last argument, the burst of the tier appended last.\<close>

definition keep :: "float64 list \<Rightarrow> rate \<Rightarrow> float64 list" where
  "keep args r = (if flt_lt (burst r) (last args) then args @ [flow r, burst r] else args)"

section \<open>Backoff\<close>

text \<open>
  \<^verbatim>\<open>math.Pow\<close>, by the special cases its documentation lists, in that order; with one
  zero, the results Go distinguishes by the sign of a zero coincide. A positive base has
  the real power, a negative base with an integral exponent the integer power.
\<close>

definition is_int :: "real \<Rightarrow> bool" where
  "is_int r = (real_of_int \<lfloor>r\<rfloor> = r)"

fun flt_abs :: "float64 \<Rightarrow> float64" where
  "flt_abs (Fin a) = Fin \<bar>a\<bar>"
| "flt_abs PInf = PInf"
| "flt_abs NInf = PInf"
| "flt_abs NaN = NaN"

definition math_Pow :: "float64 \<Rightarrow> float64 \<Rightarrow> float64" where
  "math_Pow x y =
     (if y = Fin 0 then Fin 1
      else if x = Fin 1 then Fin 1
      else if y = Fin 1 then x
      else if x = NaN \<or> y = NaN then NaN
      else if x = Fin 0 then (if flt_lt y (Fin 0) then PInf else Fin 0)
      else if y = PInf \<or> y = NInf then
        (if x = Fin (- 1) then Fin 1
         else if flt_lt (flt_abs x) (Fin 1) = (y = PInf) then Fin 0
         else PInf)
      else if x = PInf then (if flt_lt y (Fin 0) then Fin 0 else PInf)
      else
        (case (x, y) of
           (NInf, Fin b) \<Rightarrow>
             (if b < 0 then Fin 0 else if is_int b \<and> odd \<lfloor>b\<rfloor> then NInf else PInf)
         | (Fin a, Fin b) \<Rightarrow>
             (if a < 0 \<and> \<not> is_int b then NaN
              else if a < 0 then Fin (a powi \<lfloor>b\<rfloor>)
              else Fin (a powr b))
         | _ \<Rightarrow> NaN))"

text \<open>The interface \<^verbatim>\<open>Backoff\<close> of the configuration-struct package, with its four
  implementations (each a \<^verbatim>\<open>float64\<close>) and a caller's own.\<close>

datatype Backoff =
    Constant float64
  | Linear float64
  | Power float64
  | Exponential float64
  | Custom "float64 \<Rightarrow> float64"

text \<open>The method \<^verbatim>\<open>Backoff(value)\<close> of each.\<close>

fun call_Backoff :: "Backoff \<Rightarrow> float64 \<Rightarrow> float64" where
  "call_Backoff (Constant c) v = c"
| "call_Backoff (Linear l) v = flt_mul l v"
| "call_Backoff (Power p) v = math_Pow v p"
| "call_Backoff (Exponential e) v = math_Pow e v"
| "call_Backoff (Custom f) v = f v"

section \<open>The client and exec\<close>

text \<open>An \<^verbatim>\<open>error\<close> is known by its message (\<^verbatim>\<open>err.Error()\<close>).\<close>

datatype error = Error string

fun message :: "error \<Rightarrow> string" where
  "message (Error m) = m"

abbreviation errors_New :: "string \<Rightarrow> error" where
  "errors_New \<equiv> Error"

text \<open>The dynamic types of an \<^verbatim>\<open>any\<close> that \<^verbatim>\<open>validate\<close> tells apart: \<^verbatim>\<open>int64\<close>,
  \<^verbatim>\<open>string\<close>, \<^verbatim>\<open>[]any\<close>, and everything else (nil included).\<close>

datatype any = Int64 "64 word" | Str string | Arr "any list" | Other

text \<open>
  A client is a value with the method \<^verbatim>\<open>Eval\<close> and, if its type has it, the method
  \<^verbatim>\<open>EvalSha\<close>. A call takes the script or its hash, the keys and the arguments (each
  a \<^verbatim>\<open>float64\<close>: \<^verbatim>\<open>Test\<close> passes nothing else), works on the state \<open>'s\<close> of the
  server, and returns Go's pair of a result and an error (\<open>None\<close> is nil). The
  context argument is handed through untouched and left out.
\<close>

type_synonym 's call =
  "string \<Rightarrow> string list \<Rightarrow> float64 list \<Rightarrow> 's \<Rightarrow> (any \<times> error option) \<times> 's"

record 's client =
  Eval :: "'s call"
  EvalSha :: "'s call option"

text \<open>The calls a function made on the client, in order.\<close>

datatype invocation =
    ByEvalSha string "string list" "float64 list"
  | ByEval string "string list" "float64 list"

text \<open>\<^verbatim>\<open>strings.Contains(s, substr)\<close>.\<close>

fun has_prefix :: "string \<Rightarrow> string \<Rightarrow> bool" where
  "has_prefix s [] = True"
| "has_prefix [] (p # ps) = False"
| "has_prefix (c # cs) (p # ps) = (c = p \<and> has_prefix cs ps)"

fun strings_Contains :: "string \<Rightarrow> string \<Rightarrow> bool" where
  "strings_Contains [] substr = (substr = [])"
| "strings_Contains (c # cs) substr =
     (has_prefix (c # cs) substr \<or> strings_Contains cs substr)"

text \<open>What the package takes from outside its Go files: the two embedded files
  \<^verbatim>\<open>script/bucket.min.lua\<close> and \<^verbatim>\<open>script/bucket.min.lua.sha1\<close>, and
  \<^verbatim>\<open>strconv.ParseFloat(val, 64)\<close> (\<open>None\<close> where it returns an error).\<close>

record pkg =
  script :: string
  sha1 :: string
  ParseFloat :: "string \<Rightarrow> float64 option"

definition exec ::
  "pkg \<Rightarrow> 's client \<Rightarrow> string list \<Rightarrow> float64 list \<Rightarrow> 's
    \<Rightarrow> (any \<times> error option) \<times> 's \<times> invocation list" where
  "exec p eval keys args s =
     (let full = (\<lambda>s0 made.
            let (r, s') = Eval eval (script p) keys args s0
            in (r, s', made @ [ByEval (script p) keys args]))
      in case EvalSha eval of
           Some evalsha \<Rightarrow>
             (let ((res, err), s1) = evalsha (sha1 p) keys args s;
                  made = [ByEvalSha (sha1 p) keys args]
              in case err of
                   None \<Rightarrow> ((res, err), s1, made)
                 | Some e \<Rightarrow>
                     if \<not> strings_Contains (message e) ''NOSCRIPT''
                     then ((res, err), s1, made)
                     else full s1 made)
         | None \<Rightarrow> full s [])"

section \<open>The limiter of the configuration-struct package\<close>

text \<open>What a Go function call ends in: its results with a nil error, a non-nil error
  (the other result is then nil or the zero value), or a run-time panic.\<close>

datatype 'a outcome = is_Return: Return 'a | is_Fail: Fail error | is_Panic: Panic

record 's Config =
  Redis :: "'s client option"
  Prefix :: string
  Backoff_field :: "Backoff option"
  Buckets :: "Bucket list"

text \<open>The struct \<^verbatim>\<open>Limiter\<close>; the type of its field \<^verbatim>\<open>backoff\<close> is the one thing
  in which the two packages' structs differ.\<close>

record ('s, 'b) Limiter =
  args :: "float64 list"
  redis :: "'s client"
  prefix :: string
  backoff :: 'b

record Result =
  Allow :: bool
  Free :: float64
  Wait :: Duration

text \<open>The loop that resolves the buckets, returning at the first tier with a
  parameter that is not positive (\<open>None\<close>).\<close>

fun resolve :: "Bucket list \<Rightarrow> rate list option" where
  "resolve [] = Some []"
| "resolve (b # bs) =
     (let (f, bu) = Bucket_Rate b
      in if flt_le f (Fin 0) \<or> flt_le bu (Fin 0) then None
         else map_option (\<lambda>rs. (f, bu) # rs) (resolve bs))"

definition NewLimiter :: "'s Config \<Rightarrow> ('s, Backoff) Limiter outcome" where
  "NewLimiter c =
     (case Redis c of
        None \<Rightarrow> Fail (errors_New ''the limiter must have a redis client'')
      | Some r \<Rightarrow>
          if length (Buckets c) = 0
          then Fail (errors_New ''the limiter must have provided rates'')
          else
            let b = (case Backoff_field c of None \<Rightarrow> Linear (Fin 2) | Some b \<Rightarrow> b)
            in case resolve (Buckets c) of
                 None \<Rightarrow> Fail (errors_New ''all rate parameters must be positive'')
               | Some rates \<Rightarrow>
                   (case sort_Slice less_rate rates of
                      [] \<Rightarrow> Panic
                    | r0 # rs \<Rightarrow>
                        Return \<lparr>args = foldl keep [flow r0, burst r0] rs,
                                redis = r, prefix = Prefix c, backoff = b\<rparr>))"

definition validate :: "pkg \<Rightarrow> any \<Rightarrow> error + 64 word \<times> float64 \<times> 64 word" where
  "validate p raw =
     (case raw of
        Arr [Int64 allow, Str val, Int64 index] \<Rightarrow>
          (case ParseFloat p val of
             Some v \<Rightarrow> Inr (allow, v, index)
           | None \<Rightarrow> Inl (errors_New ''invalid type returned from eval''))
      | _ \<Rightarrow> Inl (errors_New ''invalid type returned from eval''))"

text \<open>Indexing a slice with an \<^verbatim>\<open>int64\<close>: out of range is a run-time panic
  (\<open>None\<close>).\<close>

definition index_at :: "'a list \<Rightarrow> 64 word \<Rightarrow> 'a option" where
  "index_at xs i =
     (if 0 \<le> sint i \<and> nat (sint i) < length xs then Some (xs ! nat (sint i)) else None)"

definition float64_of_Duration :: "Duration \<Rightarrow> float64" where
  "float64_of_Duration d = Fin (real_of_int (sint d))"

definition Test ::
  "pkg \<Rightarrow> ('s, Backoff) Limiter \<Rightarrow> string \<Rightarrow> float64 \<Rightarrow> 's
    \<Rightarrow> Result outcome \<times> 's \<times> invocation list" where
  "Test p l key cost s =
     (let keys = [prefix l @ key];
          args' = cost # args l;
          ((raw, err), s', made) = exec p (redis l) keys args' s
      in case err of
           Some e \<Rightarrow> (Fail e, s', made)
         | None \<Rightarrow>
             (case validate p raw of
                Inl e \<Rightarrow> (Fail e, s', made)
              | Inr (allow, v, index) \<Rightarrow>
                  if allow = 1
                  then (Return \<lparr>Allow = True, Free = v, Wait = 0\<rparr>, s', made)
                  else
                    (case index_at args' (2 * index - 1) of
                       None \<Rightarrow> (Panic, s', made)
                     | Some flow_i \<Rightarrow>
                         let wait = flt_mul (flt_div cost flow_i)
                                      (call_Backoff (backoff l) (flt_div v cost))
                         in (Return \<lparr>Allow = False, Free = Fin 0,
                               Wait = Duration_of (flt_mul wait (float64_of_Duration Second))\<rparr>,
                             s', made))))"

section \<open>The limiter of the functional-options package\<close>

text \<open>The struct \<^verbatim>\<open>config\<close>; a nil \<^verbatim>\<open>backoff\<close> is \<open>None\<close>. A \<^verbatim>\<open>Config\<close> is a
  function that updates it.\<close>

record config =
  rates :: "rate list"
  cfg_prefix :: string
  cfg_backoff :: "(float64 \<Rightarrow> float64) option"

type_synonym Config_fn = "config \<Rightarrow> config"

definition WithConstantBackoff :: "float64 \<Rightarrow> Config_fn" where
  "WithConstantBackoff factor c = c\<lparr>cfg_backoff := Some (\<lambda>deny. factor)\<rparr>"

definition WithLinearBackoff :: "float64 \<Rightarrow> Config_fn" where
  "WithLinearBackoff factor c = c\<lparr>cfg_backoff := Some (\<lambda>deny. flt_mul factor deny)\<rparr>"

definition WithPowerBackoff :: "float64 \<Rightarrow> Config_fn" where
  "WithPowerBackoff factor c = c\<lparr>cfg_backoff := Some (\<lambda>deny. math_Pow deny factor)\<rparr>"

definition WithExponentialBackoff :: "float64 \<Rightarrow> Config_fn" where
  "WithExponentialBackoff factor c = c\<lparr>cfg_backoff := Some (\<lambda>deny. math_Pow factor deny)\<rparr>"

definition WithCustomBackoff :: "(float64 \<Rightarrow> float64) option \<Rightarrow> Config_fn" where
  "WithCustomBackoff f c = c\<lparr>cfg_backoff := f\<rparr>"

definition WithAdditionalBucket :: "Bucket \<Rightarrow> Config_fn" where
  "WithAdditionalBucket bucket c =
     (let (f, bu) = Bucket_Rate bucket in c\<lparr>rates := rates c @ [(f, bu)]\<rparr>)"

definition WithPrefix :: "string \<Rightarrow> Config_fn" where
  "WithPrefix pre c = c\<lparr>cfg_prefix := pre\<rparr>"

definition New ::
  "'s client option \<Rightarrow> Bucket \<Rightarrow> Config_fn list
    \<Rightarrow> ('s, (float64 \<Rightarrow> float64) option) Limiter outcome" where
  "New redis_arg bucket configs =
     (case redis_arg of
        None \<Rightarrow> Fail (errors_New ''limiter: must have a redis client'')
      | Some r \<Rightarrow>
          let c0 = \<lparr>rates = [], cfg_prefix = [], cfg_backoff = None\<rparr>;
              c1 = WithLinearBackoff (Fin 2) c0;
              c2 = WithAdditionalBucket bucket c1;
              c = foldl (\<lambda>c cfg. cfg c) c2 configs
          in case sort_Slice less_rate (rates c) of
               [] \<Rightarrow> Panic
             | r0 # rs \<Rightarrow>
                 let args = foldl keep [flow r0, burst r0] rs
                 in if list_ex (\<lambda>arg. flt_le arg (Fin 0)) args
                    then Fail (errors_New ''limiter: rate parameters must be positive'')
                    else Return \<lparr>args = args, redis = r, prefix = cfg_prefix c,
                                  backoff = cfg_backoff c\<rparr>)"

definition validate_fn :: "pkg \<Rightarrow> any \<Rightarrow> error + 64 word \<times> float64 \<times> 64 word" where
  "validate_fn p raw =
     (case raw of
        Arr [Int64 allow, Str val, Int64 index] \<Rightarrow>
          (case ParseFloat p val of
             Some v \<Rightarrow> Inr (allow, v, index)
           | None \<Rightarrow> Inl (errors_New ''limiter: invalid type returned from eval''))
      | _ \<Rightarrow> Inl (errors_New ''limiter: invalid type returned from eval''))"

text \<open>\<^verbatim>\<open>Test\<close> of this package; calling a nil \<^verbatim>\<open>backoff\<close> is a run-time panic.\<close>

definition Test_fn ::
  "pkg \<Rightarrow> ('s, (float64 \<Rightarrow> float64) option) Limiter \<Rightarrow> string \<Rightarrow> float64 \<Rightarrow> 's
    \<Rightarrow> Result outcome \<times> 's \<times> invocation list" where
  "Test_fn p l key cost s =
     (let keys = [prefix l @ key];
          args' = cost # args l;
          ((raw, err), s', made) = exec p (redis l) keys args' s
      in case err of
           Some e \<Rightarrow> (Fail e, s', made)
         | None \<Rightarrow>
             (case validate_fn p raw of
                Inl e \<Rightarrow> (Fail e, s', made)
              | Inr (allow, v, index) \<Rightarrow>
                  if allow = 1
                  then (Return \<lparr>Allow = True, Free = v, Wait = 0\<rparr>, s', made)
                  else
                    (case index_at args' (2 * index - 1) of
                       None \<Rightarrow> (Panic, s', made)
                     | Some flow_i \<Rightarrow>
                         (case backoff l of
                            None \<Rightarrow> (Panic, s', made)
                          | Some bf \<Rightarrow>
                              let wait = flt_mul (flt_div cost flow_i) (bf (flt_div v cost))
                              in (Return \<lparr>Allow = False, Free = Fin 0,
                                    Wait = Duration_of (flt_mul wait (float64_of_Duration Second))\<rparr>,
                                  s', made)))))"

section \<open>The specification's consolidation\<close>

text \<open>The data model's tier: a flow and a burst, both greater than zero (so neither
  is NaN).\<close>

definition valid_rate :: "rate \<Rightarrow> bool" where
  "valid_rate r = (flt_lt (Fin 0) (flow r) \<and> flt_lt (Fin 0) (burst r))"

text \<open>The frozen argument template of a tier list, \<^verbatim>\<open>[flow_1, burst_1, ..., flow_n,
  burst_n]\<close>, and the tiers of a template.\<close>

definition template :: "rate list \<Rightarrow> float64 list" where
  "template ts = concat (map (\<lambda>r. [flow r, burst r]) ts)"

fun pairs :: "float64 list \<Rightarrow> rate list" where
  "pairs (f # b # rest) = (f, b) # pairs rest"
| "pairs _ = []"

text \<open>
  The consolidation as the specification words it, to compare with the constructors':
  sort ascending by flow, ties broken by ascending burst (\<open>sort_spec\<close>, an insertion
  sort by the order \<open>le_spec\<close>); keep the first tier; scan the rest in order, keeping
  a tier only if its burst is strictly less than the burst of the tier kept last
  (\<open>prune_spec\<close>, whose first argument is that tier).
\<close>

definition le_spec :: "rate \<Rightarrow> rate \<Rightarrow> bool" where
  "le_spec a b =
     (flt_lt (flow a) (flow b) \<or> (flow a = flow b \<and> flt_le (burst a) (burst b)))"

fun insort_spec :: "rate \<Rightarrow> rate list \<Rightarrow> rate list" where
  "insort_spec x [] = [x]"
| "insort_spec x (y # ys) = (if le_spec x y then x # y # ys else y # insort_spec x ys)"

definition sort_spec :: "rate list \<Rightarrow> rate list" where
  "sort_spec ts = foldr insort_spec ts []"

fun prune_spec :: "rate \<Rightarrow> rate list \<Rightarrow> rate list" where
  "prune_spec kept [] = []"
| "prune_spec kept (t # ts) =
     (if flt_lt (burst t) (burst kept) then t # prune_spec t ts else prune_spec kept ts)"

definition consolidate_spec :: "rate list \<Rightarrow> rate list" where
  "consolidate_spec tiers =
     (case sort_spec tiers of [] \<Rightarrow> [] | t # ts \<Rightarrow> t # prune_spec t ts)"

text \<open>The option list of the functional-options package that makes the choice a
  \<^verbatim>\<open>Config.Backoff\<close> of the configuration struct makes (\<open>None\<close> is the nil interface:
  no choice).\<close>

fun backoff_option :: "Backoff option \<Rightarrow> Config_fn list" where
  "backoff_option None = []"
| "backoff_option (Some (Constant k)) = [WithConstantBackoff k]"
| "backoff_option (Some (Linear k)) = [WithLinearBackoff k]"
| "backoff_option (Some (Power k)) = [WithPowerBackoff k]"
| "backoff_option (Some (Exponential k)) = [WithExponentialBackoff k]"
| "backoff_option (Some (Custom f)) = [WithCustomBackoff (Some f)]"

text \<open>The \<^verbatim>\<open>Rate\<close> buckets of an argument template.\<close>

definition Rates_of :: "float64 list \<Rightarrow> Bucket list" where
  "Rates_of as = map (\<lambda>(f, b). Rate f b) (pairs as)"

section \<open>The atomic evaluator\<close>

text \<open>
  The script the package embeds (\<^verbatim>\<open>script/bucket.min.lua\<close>) is not among the
  repository's Go files; the admission algorithm is modelled from section 4.4 of the
  specification, over real numbers. A tier is a pair of a flow and a burst; the state of
  the tiers of one key maps a tier's position to its level and the time of its last
  update, or to \<open>None\<close> where there is none yet.
\<close>

type_synonym tier_state = "(real \<times> real) option"

text \<open>The evaluator's answer: whether the test is admitted, the free capacity or the
  excess, and the 1-based index of the controlling tier (0 when admitted).\<close>

record verdict =
  allowed :: bool
  amount :: real
  tier_index :: nat

text \<open>Modelled from the spec: the script's read of a tier's state, an absent state
  treated as \<^verbatim>\<open>level_i = 0\<close>, \<^verbatim>\<open>t_i = now\<close>.\<close>

definition read_state :: "real \<Rightarrow> tier_state \<Rightarrow> real \<times> real" where
  "read_state now st = (case st of None \<Rightarrow> (0, now) | Some level_t \<Rightarrow> level_t)"

text \<open>Modelled from the spec: the script's step 1,
  \<^verbatim>\<open>elapsed_i = max(0, now - t_i)\<close>, \<^verbatim>\<open>decayed_i = max(0, level_i - flow_i * elapsed_i)\<close>.\<close>

definition decayed :: "real \<Rightarrow> real \<times> real \<Rightarrow> tier_state \<Rightarrow> real" where
  "decayed now tier st =
     (let (level, t) = read_state now st;
          elapsed = max 0 (now - t)
      in max 0 (level - fst tier * elapsed))"

text \<open>Modelled from the spec: the script's step 2, \<^verbatim>\<open>projected_i = decayed_i + cost\<close>.\<close>

definition projected :: "real \<Rightarrow> real \<Rightarrow> real \<times> real \<Rightarrow> tier_state \<Rightarrow> real" where
  "projected now cost tier st = decayed now tier st + cost"

text \<open>Modelled from the spec: the script's \<^verbatim>\<open>projected_i\<close> of the tier at position
  \<open>i\<close>, from that tier's state.\<close>

definition projected_at ::
  "real \<Rightarrow> real \<Rightarrow> (real \<times> real) list \<Rightarrow> (nat \<Rightarrow> tier_state) \<Rightarrow> nat \<Rightarrow> real" where
  "projected_at now cost tiers st i = projected now cost (tiers ! i) (st i)"

text \<open>Modelled from the spec: the wait a violating tier implies,
  \<^verbatim>\<open>(projected_i - burst_i) / flow_i\<close>.\<close>

definition implied_wait ::
  "real \<Rightarrow> real \<Rightarrow> (real \<times> real) list \<Rightarrow> (nat \<Rightarrow> tier_state) \<Rightarrow> nat \<Rightarrow> real" where
  "implied_wait now cost tiers st i =
     (projected_at now cost tiers st i - snd (tiers ! i)) / fst (tiers ! i)"

text \<open>Modelled from the spec: the script's \<^verbatim>\<open>min_i\<close> over the tiers, as a scan.\<close>

fun minimum :: "real list \<Rightarrow> real" where
  "minimum [] = 0"
| "minimum [x] = x"
| "minimum (x # y # ys) = min x (minimum (y # ys))"

text \<open>Modelled from the spec: the script's choice of the controlling tier, a scan of
  the violating tiers that keeps the one with the largest implied wait (the first of
  them, where several have it: the specification names no tie-break).\<close>

fun best :: "nat \<times> real \<Rightarrow> (nat \<times> real) list \<Rightarrow> nat \<times> real" where
  "best b [] = b"
| "best b (c # cs) = best (if snd b < snd c then c else b) cs"

definition controlling :: "(nat \<times> real) list \<Rightarrow> nat" where
  "controlling ws = (case ws of [] \<Rightarrow> 0 | w # rest \<Rightarrow> fst (best w rest))"

text \<open>Modelled from the spec: the script as a whole (steps 3 to 5), from the time, the
  cost, the tiers and the state to the answer and the new state.\<close>

definition evaluate ::
  "real \<Rightarrow> real \<Rightarrow> (real \<times> real) list \<Rightarrow> (nat \<Rightarrow> tier_state)
    \<Rightarrow> verdict \<times> (nat \<Rightarrow> tier_state)" where
  "evaluate now cost tiers st =
     (let n = length tiers;
          proj = projected_at now cost tiers st;
          violations = filter (\<lambda>i. snd (tiers ! i) < proj i) [0..<n]
      in if violations = []
         then (\<lparr>allowed = True,
                 amount = minimum (map (\<lambda>i. snd (tiers ! i) - proj i) [0..<n]),
                 tier_index = 0\<rparr>,
               (\<lambda>i. if i < n then Some (proj i, now) else st i))
         else
           let k = controlling (map (\<lambda>i. (i, implied_wait now cost tiers st i)) violations)
           in (\<lparr>allowed = False, amount = proj k - snd (tiers ! k), tier_index = k + 1\<rparr>, st))"

section \<open>Auxiliary notions\<close>

text \<open>A tier neither of whose parameters is NaN.\<close>

definition no_NaN :: "rate \<Rightarrow> bool" where
  "no_NaN r = (flow r \<noteq> NaN \<and> burst r \<noteq> NaN)"

text \<open>The test for which the constructors reject a tier.\<close>

definition nonpositive :: "rate \<Rightarrow> bool" where
  "nonpositive r = (flt_le (flow r) (Fin 0) \<or> flt_le (burst r) (Fin 0))"

abbreviation le_rate :: "rate \<Rightarrow> rate \<Rightarrow> bool" where
  "le_rate a b \<equiv> \<not> less_rate b a"

text \<open>A client for the examples: it has no \<^verbatim>\<open>EvalSha\<close>, and its \<^verbatim>\<open>Eval\<close> answers
  every call as the client of the repository's test \<^verbatim>\<open>TestSuperfluousRates\<close> does.\<close>

definition ex_client :: "unit client" where
  "ex_client =
     \<lparr>Eval = (\<lambda>scr keys as s. ((Arr [Int64 1, Str ''1'', Int64 1], None), s)),
      EvalSha = None\<rparr>"

text \<open>A client as the test framework's: \<^verbatim>\<open>EvalSha\<close> always fails with Redis's
  \<^verbatim>\<open>NOSCRIPT\<close> error, and \<^verbatim>\<open>Eval\<close> answers. The server state counts the calls.\<close>

definition noscript_client :: "nat client" where
  "noscript_client =
     \<lparr>Eval = (\<lambda>scr keys as s. ((Arr [Int64 0, Str ''0.5'', Int64 2], None), Suc s)),
      EvalSha = Some (\<lambda>sha keys as s.
        ((Other, Some (Error ''NOSCRIPT No matching script. Please use EVAL.'')), Suc s))\<rparr>"

text \<open>The client of the repository's test \<^verbatim>\<open>TestErrorPassing\<close>: \<^verbatim>\<open>EvalSha\<close> fails with
  another error, and \<^verbatim>\<open>Eval\<close> is not to be reached.\<close>

definition error_client :: "nat client" where
  "error_client =
     \<lparr>Eval = (\<lambda>scr keys as s. ((Other, None), Suc s)),
      EvalSha = Some (\<lambda>sha keys as s. ((Other, Some (Error ''unknown error'')), Suc s))\<rparr>"

text \<open>A client whose answer has the right types and an \<^verbatim>\<open>allow\<close> of 2, and one whose
  answer is no array.\<close>

definition odd_client :: "unit client" where
  "odd_client =
     \<lparr>Eval = (\<lambda>scr keys as s. ((Arr [Int64 2, Str ''1'', Int64 1], None), s)),
      EvalSha = None\<rparr>"

definition bad_client :: "unit client" where
  "bad_client = \<lparr>Eval = (\<lambda>scr keys as s. ((Str ''OK'', None), s)), EvalSha = None\<rparr>"

text \<open>A client that names a tier the limiter does not have.\<close>

definition far_client :: "unit client" where
  "far_client =
     \<lparr>Eval = (\<lambda>scr keys as s. ((Arr [Int64 0, Str ''1'', Int64 7], None), s)),
      EvalSha = None\<rparr>"

text \<open>The package's surroundings for the examples; of \<^verbatim>\<open>strconv.ParseFloat\<close> only what
  it returns for the two strings the examples' clients send.\<close>

definition ex_pkg :: pkg where
  "ex_pkg =
     \<lparr>script = ''bucket.min.lua'', sha1 = ''bucket.min.lua.sha1'',
      ParseFloat = (\<lambda>val. if val = ''1'' then Some (Fin 1)
                            else if val = ''0.5'' then Some (Fin (1 / 2)) else None)\<rparr>"

text \<open>The responses \<^verbatim>\<open>validate\<close> accepts: an array of an \<^verbatim>\<open>int64\<close>, a string that
  \<^verbatim>\<open>strconv.ParseFloat\<close> parses, and an \<^verbatim>\<open>int64\<close>.\<close>

definition well_typed :: "pkg \<Rightarrow> any \<Rightarrow> bool" where
  "well_typed p raw =
     (\<exists>allow val index v. raw = Arr [Int64 allow, Str val, Int64 index] \<and> ParseFloat p val = Some v)"

text \<open>Two outcomes of \<^verbatim>\<open>Test\<close>, one of each package, that are the same but for the
  message of the error of \<^verbatim>\<open>validate\<close>.\<close>

definition same_outcome :: "Result outcome \<Rightarrow> Result outcome \<Rightarrow> bool" where
  "same_outcome a b =
     (a = b \<or> (a = Fail (errors_New ''invalid type returned from eval'')
              \<and> b = Fail (errors_New ''limiter: invalid type returned from eval'')))"

section \<open>Theorems\<close>

subsection \<open>The order on tiers\<close>

lemma flt_lt_irrefl: "\<not> flt_lt a a"
  by (cases a) simp_all

lemma flt_lt_trans: "flt_lt a b \<Longrightarrow> flt_lt b c \<Longrightarrow> flt_lt a c"
  by (cases a; cases b; cases c) simp_all

lemma flt_lt_total: "a \<noteq> NaN \<Longrightarrow> b \<noteq> NaN \<Longrightarrow> a \<noteq> b \<Longrightarrow> flt_lt a b \<or> flt_lt b a"
  by (cases a; cases b) auto

lemma flt_lt_asym: "flt_lt a b \<Longrightarrow> \<not> flt_lt b a"
  by (cases a; cases b) simp_all

lemma flt_le_iff: "a \<noteq> NaN \<Longrightarrow> b \<noteq> NaN \<Longrightarrow> flt_le a b \<longleftrightarrow> \<not> flt_lt b a"
  by (cases a; cases b) auto

lemma flt_lt_not_NaN: "flt_lt a b \<Longrightarrow> a \<noteq> NaN \<and> b \<noteq> NaN"
  by (cases a; cases b) simp_all

lemma valid_rate_no_NaN: "valid_rate r \<Longrightarrow> no_NaN r"
  by (auto simp: valid_rate_def no_NaN_def dest: flt_lt_not_NaN)

lemma less_rate_irrefl: "\<not> less_rate a a"
  by (simp add: less_rate_def flt_lt_irrefl)

lemma less_rate_iff:
  "no_NaN a \<Longrightarrow> no_NaN b \<Longrightarrow>
   less_rate a b \<longleftrightarrow> flt_lt (flow a) (flow b) \<or> (flow a = flow b \<and> flt_lt (burst a) (burst b))"
  by (auto simp: less_rate_def flt_ne_def no_NaN_def flt_lt_irrefl)

lemma less_rate_trans:
  "no_NaN a \<Longrightarrow> no_NaN b \<Longrightarrow> no_NaN c \<Longrightarrow> less_rate a b \<Longrightarrow> less_rate b c \<Longrightarrow> less_rate a c"
  by (auto simp: less_rate_iff intro: flt_lt_trans)

lemma less_rate_asym: "no_NaN a \<Longrightarrow> no_NaN b \<Longrightarrow> less_rate a b \<Longrightarrow> \<not> less_rate b a"
  by (auto simp: less_rate_iff flt_lt_irrefl dest: flt_lt_asym)

lemma less_rate_total:
  assumes "no_NaN a" "no_NaN b" "a \<noteq> b"
  shows "less_rate a b \<or> less_rate b a"
proof (cases "flow a = flow b")
  case True
  with assms have "burst a \<noteq> burst b" by (simp add: prod_eq_iff)
  then have "flt_lt (burst a) (burst b) \<or> flt_lt (burst b) (burst a)"
    using assms flt_lt_total by (simp add: no_NaN_def)
  with True assms show ?thesis by (auto simp: less_rate_iff)
next
  case False
  then have "flt_lt (flow a) (flow b) \<or> flt_lt (flow b) (flow a)"
    using assms flt_lt_total by (simp add: no_NaN_def)
  with assms show ?thesis by (auto simp: less_rate_iff)
qed

text \<open>Cotransitivity.\<close>

lemma less_rate_cotrans:
  assumes "no_NaN a" "no_NaN b" "no_NaN c" "less_rate a c"
  shows "less_rate a b \<or> less_rate b c"
proof (cases "a = b")
  case True
  with assms show ?thesis by simp
next
  case False
  then consider "less_rate a b" | "less_rate b a"
    using less_rate_total assms by blast
  then show ?thesis
  proof cases
    case 1 then show ?thesis by simp
  next
    case 2
    then have "less_rate b c" using assms less_rate_trans by blast
    then show ?thesis by simp
  qed
qed


subsection \<open>sort.Slice\<close>

lemma mset_insert_left: "mset (insert_left lt x ys) = add_mset x (mset ys)"
  by (induction ys) auto

lemma mset_foldl_insert_left:
  "mset (foldl (\<lambda>acc x. insert_left lt x acc) acc xs) = mset acc + mset xs"
  by (induction xs arbitrary: acc) (auto simp: mset_insert_left)

lemma mset_sort_Slice: "mset (sort_Slice lt xs) = mset xs"
  by (simp add: sort_Slice_def mset_foldl_insert_left)

lemma set_sort_Slice: "set (sort_Slice lt xs) = set xs"
  using mset_sort_Slice [of lt xs] by (metis set_mset_mset)

lemma length_sort_Slice: "length (sort_Slice lt xs) = length xs"
  using mset_sort_Slice [of lt xs] by (metis size_mset)

lemma set_insert_left: "set (insert_left lt x ys) = insert x (set ys)"
  using mset_insert_left [of lt x ys] by (metis set_mset_mset set_mset_add_mset_insert)

text \<open>The reversed prefix is descending: nothing is less than an element after it.\<close>

lemma sorted_insert_left:
  assumes "sorted_wrt (\<lambda>a b. le_rate b a) ys" "no_NaN x" "\<forall>y\<in>set ys. no_NaN y"
  shows "sorted_wrt (\<lambda>a b. le_rate b a) (insert_left less_rate x ys)"
  using assms
proof (induction ys)
  case Nil
  then show ?case by simp
next
  case (Cons y ys)
  show ?case
  proof (cases "less_rate x y")
    case True
    have "\<forall>z\<in>set (insert_left less_rate x ys). le_rate z y"
      using Cons.prems True by (auto simp: set_insert_left dest: less_rate_asym)
    with Cons True show ?thesis by simp
  next
    case False
    have "le_rate z x" if "z \<in> set ys" for z
    proof
      assume "less_rate x z"
      then have "less_rate x y \<or> less_rate y z"
        using less_rate_cotrans [of x y z] Cons.prems that by simp
      with False Cons.prems that show False by auto
    qed
    with Cons.prems False show ?thesis by auto
  qed
qed

lemma sorted_foldl_insert_left:
  assumes "sorted_wrt (\<lambda>a b. le_rate b a) acc" "\<forall>y\<in>set acc. no_NaN y" "\<forall>x\<in>set xs. no_NaN x"
  shows "sorted_wrt (\<lambda>a b. le_rate b a) (foldl (\<lambda>acc x. insert_left less_rate x acc) acc xs)"
  using assms
proof (induction xs arbitrary: acc)
  case Nil
  then show ?case by simp
next
  case (Cons x xs)
  have "sorted_wrt (\<lambda>a b. le_rate b a) (insert_left less_rate x acc)"
    using Cons.prems by (simp add: sorted_insert_left)
  moreover have "\<forall>y\<in>set (insert_left less_rate x acc). no_NaN y"
    using Cons.prems by (simp add: set_insert_left)
  ultimately show ?case using Cons.IH Cons.prems by simp
qed

lemma sorted_sort_Slice:
  assumes "\<forall>x\<in>set xs. no_NaN x"
  shows "sorted_wrt le_rate (sort_Slice less_rate xs)"
proof -
  have "sorted_wrt (\<lambda>a b. le_rate b a) (foldl (\<lambda>acc x. insert_left less_rate x acc) [] xs)"
    using assms by (intro sorted_foldl_insert_left) simp_all
  then show ?thesis
    by (simp add: sort_Slice_def sorted_wrt_rev)
qed

text \<open>A sorted list is determined by its elements.\<close>

lemma sorted_wrt_le_rate_unique:
  assumes "sorted_wrt le_rate xs" "sorted_wrt le_rate ys" "mset xs = mset ys"
    "\<forall>x\<in>set xs. no_NaN x"
  shows "xs = ys"
  using assms
proof (induction xs arbitrary: ys)
  case Nil
  then show ?case by simp
next
  case (Cons x xs)
  then obtain y ys' where ys: "ys = y # ys'"
    by (cases ys) auto
  have sets: "set (x # xs) = set ys"
    using Cons.prems(3) by (metis set_mset_mset)
  have nn: "no_NaN x" "no_NaN y"
    using Cons.prems(4) sets ys by auto
  have "x = y"
  proof (rule ccontr)
    assume ne: "x \<noteq> y"
    then have "y \<in> set xs" "x \<in> set ys'"
      using sets ys by auto
    then have "le_rate x y" "le_rate y x"
      using Cons.prems(1,2) ys by auto
    with less_rate_total [OF nn ne] show False by blast
  qed
  moreover have "xs = ys'"
    using Cons.prems ys \<open>x = y\<close> by (intro Cons.IH) auto
  ultimately show ?case using ys by simp
qed

lemma sort_Slice_unique:
  assumes "sorted_wrt le_rate ys" "mset ys = mset xs" "\<forall>x\<in>set xs. no_NaN x"
  shows "sort_Slice less_rate xs = ys"
proof -
  have "\<forall>x\<in>set (sort_Slice less_rate xs). no_NaN x"
    using assms(3) by (simp add: set_sort_Slice)
  then show ?thesis
    using sorted_sort_Slice [OF assms(3)] assms(1,2)
    by (intro sorted_wrt_le_rate_unique) (simp_all add: mset_sort_Slice)
qed

subsection \<open>The specification's sort\<close>

lemma le_spec_le_rate: "no_NaN a \<Longrightarrow> no_NaN b \<Longrightarrow> le_spec a b \<longleftrightarrow> le_rate a b"
  unfolding le_spec_def less_rate_iff
  using flt_lt_total [of "flow a" "flow b"]
  by (auto simp: no_NaN_def flt_le_iff flt_lt_irrefl dest: flt_lt_asym)

lemma le_rate_trans:
  assumes "no_NaN a" "no_NaN b" "no_NaN c" "le_rate a b" "le_rate b c"
  shows "le_rate a c"
  using less_rate_cotrans [of c b a] assms by blast

lemma le_rate_total: "no_NaN a \<Longrightarrow> no_NaN b \<Longrightarrow> le_rate a b \<or> le_rate b a"
  using less_rate_asym by blast

lemma mset_insort_spec: "mset (insort_spec x ys) = add_mset x (mset ys)"
  by (induction ys) auto

lemma mset_sort_spec: "mset (sort_spec xs) = mset xs"
  by (induction xs) (auto simp: sort_spec_def mset_insort_spec)

lemma set_insort_spec: "set (insort_spec x ys) = insert x (set ys)"
  using mset_insort_spec [of x ys] by (metis set_mset_mset set_mset_add_mset_insert)

lemma set_sort_spec: "set (sort_spec xs) = set xs"
  using mset_sort_spec [of xs] by (metis set_mset_mset)

lemma sorted_insort_spec:
  assumes "sorted_wrt le_rate ys" "no_NaN x" "\<forall>y\<in>set ys. no_NaN y"
  shows "sorted_wrt le_rate (insort_spec x ys)"
  using assms
proof (induction ys)
  case Nil
  then show ?case by simp
next
  case (Cons y ys)
  show ?case
  proof (cases "le_spec x y")
    case True
    then have xy: "le_rate x y"
      using Cons.prems le_spec_le_rate by simp
    have "le_rate x z" if "z \<in> set ys" for z
      using le_rate_trans [of x y z] xy Cons.prems that by auto
    with True xy Cons.prems show ?thesis by auto
  next
    case False
    then have "le_rate y x"
      using Cons.prems le_spec_le_rate le_rate_total by (metis list.set_intros(1))
    with False Cons show ?thesis
      by (auto simp: set_insort_spec)
  qed
qed

lemma sorted_sort_spec:
  assumes "\<forall>x\<in>set xs. no_NaN x"
  shows "sorted_wrt le_rate (sort_spec xs)"
  using assms
proof (induction xs)
  case Nil
  then show ?case by (simp add: sort_spec_def)
next
  case (Cons x xs)
  have "sorted_wrt le_rate (insort_spec x (sort_spec xs))"
    using Cons by (intro sorted_insort_spec) (simp_all add: set_sort_spec)
  then show ?case by (simp add: sort_spec_def)
qed

lemma sort_Slice_spec:
  assumes "\<forall>x\<in>set xs. no_NaN x"
  shows "sort_Slice less_rate xs = sort_spec xs"
  using assms by (intro sort_Slice_unique sorted_sort_spec mset_sort_spec)

subsection \<open>The loop over the sorted tiers\<close>

lemma template_append: "template (xs @ ys) = template xs @ template ys"
  by (simp add: template_def)

lemma template_Cons: "template (r # rs) = flow r # burst r # template rs"
  by (simp add: template_def)

lemma template_Nil: "template [] = []"
  by (simp add: template_def)

lemma last_template: "last (template (ks @ [k])) = burst k"
  by (simp add: template_def)

lemma pairs_template: "pairs (template ts) = ts"
  by (induction ts) (simp_all add: template_Nil template_Cons)

lemma foldl_keep_prune:
  "foldl keep (template (ks @ [k])) rs = template (ks @ k # prune_spec k rs)"
proof (induction rs arbitrary: ks k)
  case Nil
  then show ?case by simp
next
  case (Cons r rs)
  show ?case
  proof (cases "flt_lt (burst r) (burst k)")
    case True
    then have "keep (template (ks @ [k])) r = template ((ks @ [k]) @ [r])"
      unfolding keep_def last_template by (simp add: template_def)
    then show ?thesis
      using Cons.IH [of "ks @ [k]" r] True by simp
  next
    case False
    then have "keep (template (ks @ [k])) r = template (ks @ [k])"
      unfolding keep_def last_template by simp
    then show ?thesis
      using Cons.IH [of ks k] False by simp
  qed
qed

lemma foldl_keep_first:
  "foldl keep [flow r0, burst r0] rs = template (r0 # prune_spec r0 rs)"
  using foldl_keep_prune [of "[]" r0 rs] by (simp add: template_def)

text \<open>Sorting and the loop together, as both constructors run them.\<close>

lemma code_consolidation:
  assumes "\<forall>x\<in>set rs. no_NaN x"
  shows "(case sort_Slice less_rate rs of [] \<Rightarrow> None
          | r0 # rest \<Rightarrow> Some (foldl keep [flow r0, burst r0] rest)) =
         (if rs = [] then None else Some (template (consolidate_spec rs)))"
proof (cases "sort_spec rs")
  case Nil
  then have "rs = []" using mset_sort_spec [of rs] by (metis mset_zero_iff)
  then show ?thesis by (simp add: sort_Slice_def)
next
  case (Cons r0 rest)
  then have "rs \<noteq> []" by (auto simp: sort_spec_def)
  then show ?thesis
    using Cons assms by (simp add: sort_Slice_spec foldl_keep_first consolidate_spec_def)
qed

subsection \<open>The constructors on valid tiers\<close>

lemma flt_le_not_NaN: "flt_le a b \<Longrightarrow> a \<noteq> NaN \<and> b \<noteq> NaN"
  by (cases a; cases b) simp_all

lemma valid_rate_iff: "valid_rate r \<longleftrightarrow> no_NaN r \<and> \<not> nonpositive r"
  by (cases "flow r"; cases "burst r") (auto simp: valid_rate_def no_NaN_def nonpositive_def)

lemma resolve_eq:
  "resolve bs =
     (if \<exists>b\<in>set bs. nonpositive (Bucket_Rate b) then None else Some (map Bucket_Rate bs))"
  by (induction bs) (auto simp: nonpositive_def split: prod.splits)

lemma set_prune_spec: "set (prune_spec k ts) \<subseteq> set ts"
  by (induction ts arbitrary: k) auto

lemma set_consolidate_spec: "set (consolidate_spec ts) \<subseteq> set ts"
proof (cases "sort_spec ts")
  case Nil
  then show ?thesis by (simp add: consolidate_spec_def)
next
  case (Cons t rest)
  then have "set ts = insert t (set rest)"
    using set_sort_spec [of ts] by simp
  with Cons set_prune_spec [of t rest] show ?thesis
    by (auto simp: consolidate_spec_def)
qed

lemma consolidate_spec_Nil: "consolidate_spec ts = [] \<longleftrightarrow> ts = []"
proof (cases "sort_spec ts")
  case Nil
  then have "ts = []" using mset_sort_spec [of ts] by (metis mset_zero_iff)
  with Nil show ?thesis by (simp add: consolidate_spec_def)
next
  case (Cons t rest)
  then have "ts \<noteq> []" by (auto simp: sort_spec_def)
  with Cons show ?thesis by (simp add: consolidate_spec_def)
qed

lemma set_template: "set (template ts) = flow ` set ts \<union> burst ` set ts"
  by (induction ts) (auto simp: template_Nil template_Cons)

lemma NewLimiter_valid:
  assumes "Redis c = Some r" "Buckets c \<noteq> []" "\<forall>b\<in>set (Buckets c). valid_rate (Bucket_Rate b)"
  shows "NewLimiter c =
           Return \<lparr>args = template (consolidate_spec (map Bucket_Rate (Buckets c))),
                   redis = r, prefix = Prefix c,
                   backoff = (case Backoff_field c of None \<Rightarrow> Linear (Fin 2) | Some b \<Rightarrow> b)\<rparr>"
proof -
  let ?rs = "map Bucket_Rate (Buckets c)"
  have res: "resolve (Buckets c) = Some ?rs"
    using assms(3) by (auto simp: resolve_eq valid_rate_iff)
  have nn: "\<forall>x\<in>set ?rs. no_NaN x"
    using assms(3) by (auto simp: valid_rate_iff)
  have "?rs \<noteq> []" using assms(2) by simp
  then obtain r0 rest where srt: "sort_Slice less_rate ?rs = r0 # rest"
    using length_sort_Slice [of less_rate ?rs] by (cases "sort_Slice less_rate ?rs") auto
  have "foldl keep [flow r0, burst r0] rest = template (consolidate_spec ?rs)"
    using code_consolidation [OF nn] srt \<open>?rs \<noteq> []\<close> by simp
  then show ?thesis
    using assms(1,2) res srt by (simp add: NewLimiter_def)
qed

lemma foldl_WithAdditionalBucket:
  "foldl (\<lambda>c cfg. cfg c) c (map WithAdditionalBucket bs) = c\<lparr>rates := rates c @ map Bucket_Rate bs\<rparr>"
  by (induction bs arbitrary: c) (auto simp: WithAdditionalBucket_def split: prod.splits)

lemma foldl_backoff_option:
  "foldl (\<lambda>c cfg. cfg c) c (backoff_option bo) =
     (case bo of None \<Rightarrow> c | Some b \<Rightarrow> c\<lparr>cfg_backoff := Some (call_Backoff b)\<rparr>)"
proof (cases bo)
  case None
  then show ?thesis by simp
next
  case (Some b)
  have "(\<lambda>deny. call_Backoff b deny) = call_Backoff b" by simp
  then show ?thesis
    using Some
    by (cases b)
       (simp_all add: WithConstantBackoff_def WithLinearBackoff_def WithPowerBackoff_def
          WithExponentialBackoff_def WithCustomBackoff_def fun_eq_iff)
qed

lemma New_config:
  "foldl (\<lambda>c cfg. cfg c)
     (WithAdditionalBucket b0 (WithLinearBackoff (Fin 2) \<lparr>rates = [], cfg_prefix = [], cfg_backoff = None\<rparr>))
     (map WithAdditionalBucket bs @ WithPrefix p # backoff_option bo) =
   \<lparr>rates = map Bucket_Rate (b0 # bs), cfg_prefix = p,
    cfg_backoff = Some (call_Backoff (case bo of None \<Rightarrow> Linear (Fin 2) | Some b \<Rightarrow> b))\<rparr>"
  by (cases bo)
     (auto simp: foldl_WithAdditionalBucket foldl_backoff_option WithPrefix_def
        WithAdditionalBucket_def WithLinearBackoff_def fun_eq_iff split: prod.splits)

lemma New_valid:
  assumes "\<forall>b\<in>set (b0 # bs). valid_rate (Bucket_Rate b)"
  shows "New (Some r) b0 (map WithAdditionalBucket bs @ WithPrefix p # backoff_option bo) =
           Return \<lparr>args = template (consolidate_spec (map Bucket_Rate (b0 # bs))),
                   redis = r, prefix = p,
                   backoff = Some (call_Backoff (case bo of None \<Rightarrow> Linear (Fin 2) | Some b \<Rightarrow> b))\<rparr>"
proof -
  let ?rs = "map Bucket_Rate (b0 # bs)"
  have nn: "\<forall>x\<in>set ?rs. no_NaN x"
    using assms by (auto simp: valid_rate_iff)
  have "?rs \<noteq> []" by simp
  then obtain r0 rest where srt: "sort_Slice less_rate ?rs = r0 # rest"
    using length_sort_Slice [of less_rate ?rs] by (cases "sort_Slice less_rate ?rs") auto
  have tpl: "foldl keep [flow r0, burst r0] rest = template (consolidate_spec ?rs)"
    using code_consolidation [OF nn] srt by simp
  have "\<forall>t\<in>set (consolidate_spec ?rs). \<not> nonpositive t"
    using set_consolidate_spec [of ?rs] assms by (auto simp: valid_rate_iff)
  then have "\<not> list_ex (\<lambda>arg. flt_le arg (Fin 0)) (template (consolidate_spec ?rs))"
    by (auto simp: list_ex_iff set_template nonpositive_def)
  then show ?thesis
    using srt tpl unfolding New_def Let_def New_config
    by (simp del: list.map)
qed

subsection \<open>Resolving a bucket\<close>

lemma Capacity_finite:
  assumes "sint w \<noteq> 0"
  shows "Bucket_Rate (Capacity w (Fin lo) (Fin hi)) =
          (Fin (lo / (real_of_int (sint w) / 1000000000)), Fin (hi - lo))"
proof -
  have "real_of_int (sint w) / 1000000000 \<noteq> 0"
    using assms by (simp only: divide_eq_0_iff of_int_eq_0_iff) simp
  then show ?thesis
    unfolding Bucket_Rate.simps Seconds_def flt_sub_def by simp
qed

text \<open>
  C9. A \<^verbatim>\<open>Rate\<close> bucket resolves to its fields \<^verbatim>\<open>Flow\<close> and \<^verbatim>\<open>Burst\<close>, unchanged. A
  \<^verbatim>\<open>Capacity\<close> bucket resolves to the flow \<^verbatim>\<open>Min / Window.Seconds()\<close> and the burst
  \<^verbatim>\<open>Max - Min\<close>; for finite bounds and a window other than zero these are the real
  quotient of the minimum by the window in seconds, and the real difference.
\<close>

theorem Rate_resolution:
  "Bucket_Rate (Rate f b) = (f, b)
   \<and> Bucket_Rate (Capacity w mn mx) = (flt_div mn (Seconds w), flt_sub mx mn)
   \<and> (sint w \<noteq> 0 \<longrightarrow>
        Bucket_Rate (Capacity w (Fin lo) (Fin hi)) =
          (Fin (lo / (real_of_int (sint w) / 1000000000)), Fin (hi - lo)))"
  using Capacity_finite [of w lo hi] by simp

theorem Rate_resolution_witness:
  "sint Minute \<noteq> 0
   \<and> Bucket_Rate (Capacity Minute (Fin 10) (Fin 20)) = (Fin (1 / 6), Fin 10)
   \<and> Bucket_Rate (Rate (Fin (1 / 2)) (Fin 9)) = (Fin (1 / 2), Fin 9)"
  using Rate_resolution [of "Fin (1 / 2)" "Fin 9" Minute "Fin 10" "Fin 20" 10 20]
  by (simp add: Minute_def Second_def)

subsection \<open>Consolidation\<close>

text \<open>
  C2. For a non-empty list of valid tiers, both constructors return a limiter whose
  argument template is the template of the list sorted ascending by flow (ties by
  ascending burst) and pruned to the first tier and every later tier whose burst is
  strictly less than the burst of the tier kept last. For the tiers (0.1, 4), (0.2, 3),
  (0.2, 2), (0.3, 2), (0.4, 1) the template is that of (0.1, 4), (0.2, 2), (0.4, 1).
\<close>

theorem consolidation_sorts_and_prunes:
  assumes "\<forall>b\<in>set (b0 # bs). valid_rate (Bucket_Rate b)"
  shows "(\<exists>l. NewLimiter \<lparr>Redis = Some r, Prefix = p, Backoff_field = bo, Buckets = b0 # bs\<rparr>
               = Return l
             \<and> args l = template (consolidate_spec (map Bucket_Rate (b0 # bs))))
       \<and> (\<exists>l. New (Some r) b0 (map WithAdditionalBucket bs @ WithPrefix p # backoff_option bo)
               = Return l
             \<and> args l = template (consolidate_spec (map Bucket_Rate (b0 # bs))))
       \<and> consolidate_spec
           [(Fin (1 / 10), Fin 4), (Fin (2 / 10), Fin 3), (Fin (2 / 10), Fin 2),
            (Fin (3 / 10), Fin 2), (Fin (4 / 10), Fin 1)]
         = [(Fin (1 / 10), Fin 4), (Fin (2 / 10), Fin 2), (Fin (4 / 10), Fin 1)]"
proof (intro conjI)
  show "\<exists>l. NewLimiter \<lparr>Redis = Some r, Prefix = p, Backoff_field = bo, Buckets = b0 # bs\<rparr>
               = Return l
             \<and> args l = template (consolidate_spec (map Bucket_Rate (b0 # bs)))"
    using NewLimiter_valid [of "\<lparr>Redis = Some r, Prefix = p, Backoff_field = bo, Buckets = b0 # bs\<rparr>" r]
      assms by simp
  show "\<exists>l. New (Some r) b0 (map WithAdditionalBucket bs @ WithPrefix p # backoff_option bo)
               = Return l
             \<and> args l = template (consolidate_spec (map Bucket_Rate (b0 # bs)))"
    using New_valid [OF assms, of r p bo] by simp
  show "consolidate_spec
           [(Fin (1 / 10), Fin 4), (Fin (2 / 10), Fin 3), (Fin (2 / 10), Fin 2),
            (Fin (3 / 10), Fin 2), (Fin (4 / 10), Fin 1)]
         = [(Fin (1 / 10), Fin 4), (Fin (2 / 10), Fin 2), (Fin (4 / 10), Fin 1)]"
    by (simp add: consolidate_spec_def sort_spec_def le_spec_def)
qed

theorem consolidation_sorts_and_prunes_witness:
  "(\<exists>l. NewLimiter \<lparr>Redis = Some ex_client, Prefix = [], Backoff_field = None,
          Buckets = [Rate (Fin (1 / 10)) (Fin 4), Rate (Fin (2 / 10)) (Fin 3),
                     Rate (Fin (2 / 10)) (Fin 2), Rate (Fin (3 / 10)) (Fin 2),
                     Rate (Fin (4 / 10)) (Fin 1)]\<rparr> = Return l
        \<and> args l = [Fin (1 / 10), Fin 4, Fin (2 / 10), Fin 2, Fin (4 / 10), Fin 1])
   \<and> (\<exists>l. New (Some ex_client) (Rate (Fin (1 / 10)) (Fin 4))
          (map WithAdditionalBucket
             [Rate (Fin (2 / 10)) (Fin 3), Rate (Fin (2 / 10)) (Fin 2),
              Rate (Fin (3 / 10)) (Fin 2), Rate (Fin (4 / 10)) (Fin 1)]
           @ WithPrefix [] # backoff_option None) = Return l
        \<and> args l = [Fin (1 / 10), Fin 4, Fin (2 / 10), Fin 2, Fin (4 / 10), Fin 1])"
  using consolidation_sorts_and_prunes
    [of "Rate (Fin (1 / 10)) (Fin 4)"
        "[Rate (Fin (2 / 10)) (Fin 3), Rate (Fin (2 / 10)) (Fin 2),
          Rate (Fin (3 / 10)) (Fin 2), Rate (Fin (4 / 10)) (Fin 1)]"
        ex_client "[]" None]
  by (auto simp: valid_rate_def template_def)

subsection \<open>Idempotence\<close>

lemma prune_spec_idem: "prune_spec k (prune_spec k ts) = prune_spec k ts"
  by (induction ts arbitrary: k) auto

lemma sorted_wrt_prune_spec:
  "sorted_wrt P ts \<Longrightarrow> sorted_wrt P (prune_spec k ts)"
proof (induction ts arbitrary: k)
  case Nil
  then show ?case by simp
next
  case (Cons t ts)
  then show ?case
    using set_prune_spec [of t ts] by auto
qed

lemma sort_spec_sorted:
  assumes "sorted_wrt le_rate xs" "\<forall>x\<in>set xs. no_NaN x"
  shows "sort_spec xs = xs"
proof -
  have "\<forall>x\<in>set (sort_spec xs). no_NaN x"
    using assms(2) by (simp add: set_sort_spec)
  then show ?thesis
    using sorted_sort_spec [OF assms(2)] assms(1)
    by (intro sorted_wrt_le_rate_unique) (simp_all add: mset_sort_spec)
qed

lemma consolidate_spec_idem:
  assumes "\<forall>x\<in>set ts. no_NaN x"
  shows "consolidate_spec (consolidate_spec ts) = consolidate_spec ts"
proof (cases "sort_spec ts")
  case Nil
  then show ?thesis by (simp add: consolidate_spec_def sort_spec_def)
next
  case (Cons t rest)
  let ?K = "t # prune_spec t rest"
  have K: "consolidate_spec ts = ?K"
    using Cons by (simp add: consolidate_spec_def)
  have "sorted_wrt le_rate (t # rest)"
    using sorted_sort_spec [OF assms] Cons by simp
  then have "sorted_wrt le_rate ?K"
    using set_prune_spec [of t rest] by (auto simp: sorted_wrt_prune_spec)
  moreover have "\<forall>x\<in>set ?K. no_NaN x"
    using set_consolidate_spec [of ts] assms K by auto
  ultimately have "sort_spec ?K = ?K"
    by (rule sort_spec_sorted)
  then show ?thesis
    unfolding K by (simp add: consolidate_spec_def prune_spec_idem)
qed

lemma Bucket_Rate_Rates_of: "map Bucket_Rate (Rates_of (template ts)) = ts"
  by (simp add: Rates_of_def pairs_template comp_def case_prod_beta)

lemma Rates_of_Nil: "Rates_of (template ts) = [] \<longleftrightarrow> ts = []"
  by (simp add: Rates_of_def pairs_template)

text \<open>
  C8. Consolidating the tiers of an already consolidated template changes nothing:
  for a non-empty list of valid tiers, each constructor returns a limiter, and the same
  constructor applied to the \<^verbatim>\<open>Rate\<close> buckets read off that limiter's argument template
  (and the same client, prefix and backoff) returns the same limiter, its arguments in
  the same order.
\<close>

theorem consolidation_idempotent:
  assumes "\<forall>b\<in>set (b0 # bs). valid_rate (Bucket_Rate b)"
  shows "(\<exists>l. NewLimiter \<lparr>Redis = Some r, Prefix = p, Backoff_field = bo, Buckets = b0 # bs\<rparr>
               = Return l
             \<and> NewLimiter \<lparr>Redis = Some r, Prefix = p, Backoff_field = bo,
                            Buckets = Rates_of (args l)\<rparr> = Return l)
       \<and> (\<exists>l. New (Some r) b0 (map WithAdditionalBucket bs @ WithPrefix p # backoff_option bo)
               = Return l
             \<and> Rates_of (args l) \<noteq> []
             \<and> New (Some r) (hd (Rates_of (args l)))
                 (map WithAdditionalBucket (tl (Rates_of (args l)))
                  @ WithPrefix p # backoff_option bo) = Return l)"
proof -
  let ?ts = "map Bucket_Rate (b0 # bs)"
  let ?K = "consolidate_spec ?ts"
  let ?bo = "case bo of None \<Rightarrow> Linear (Fin 2) | Some b \<Rightarrow> b"
  have nn: "\<forall>x\<in>set ?ts. no_NaN x"
    using assms by (auto simp: valid_rate_iff)
  have idem: "consolidate_spec ?K = ?K"
    using consolidate_spec_idem [OF nn] .
  have ne: "Rates_of (template ?K) \<noteq> []"
    by (simp add: Rates_of_Nil consolidate_spec_Nil)
  have "set ?K \<subseteq> set ?ts" by (rule set_consolidate_spec)
  then have vK: "\<forall>b\<in>set (Rates_of (template ?K)). valid_rate (Bucket_Rate b)"
    using assms Bucket_Rate_Rates_of [of ?K]
    by (metis (no_types, lifting) image_iff list.set_map subsetD)
  obtain k0 ks where ks: "Rates_of (template ?K) = k0 # ks"
    using ne by (cases "Rates_of (template ?K)") auto
  have 1: "NewLimiter \<lparr>Redis = Some r, Prefix = p, Backoff_field = bo, Buckets = b0 # bs\<rparr>
        = Return \<lparr>args = template ?K, redis = r, prefix = p, backoff = ?bo\<rparr>"
    using NewLimiter_valid [of "\<lparr>Redis = Some r, Prefix = p, Backoff_field = bo, Buckets = b0 # bs\<rparr>" r]
      assms by simp
  have 2: "NewLimiter \<lparr>Redis = Some r, Prefix = p, Backoff_field = bo,
             Buckets = Rates_of (template ?K)\<rparr>
        = Return \<lparr>args = template ?K, redis = r, prefix = p, backoff = ?bo\<rparr>"
    using NewLimiter_valid [of "\<lparr>Redis = Some r, Prefix = p, Backoff_field = bo,
             Buckets = Rates_of (template ?K)\<rparr>" r] vK ne idem
    by (simp add: Bucket_Rate_Rates_of)
  have 3: "New (Some r) b0 (map WithAdditionalBucket bs @ WithPrefix p # backoff_option bo)
        = Return \<lparr>args = template ?K, redis = r, prefix = p, backoff = Some (call_Backoff ?bo)\<rparr>"
    using New_valid [OF assms, of r p bo] .
  have "map Bucket_Rate (k0 # ks) = ?K"
    using Bucket_Rate_Rates_of [of ?K] ks by simp
  then have 4: "New (Some r) k0 (map WithAdditionalBucket ks @ WithPrefix p # backoff_option bo)
        = Return \<lparr>args = template ?K, redis = r, prefix = p, backoff = Some (call_Backoff ?bo)\<rparr>"
    using New_valid [of k0 ks r p bo] vK ks idem by simp
  show ?thesis
    using 1 2 3 4 ks by simp
qed

theorem consolidation_idempotent_witness:
  "(\<exists>l. NewLimiter \<lparr>Redis = Some ex_client, Prefix = ''p:'', Backoff_field = None,
          Buckets = [Rate (Fin (1 / 2)) (Fin 9), Rate (Fin (1 / 4)) (Fin 18),
                     Rate (Fin (1 / 2)) (Fin 10)]\<rparr> = Return l
        \<and> args l = [Fin (1 / 4), Fin 18, Fin (1 / 2), Fin 9]
        \<and> NewLimiter \<lparr>Redis = Some ex_client, Prefix = ''p:'', Backoff_field = None,
            Buckets = [Rate (Fin (1 / 4)) (Fin 18), Rate (Fin (1 / 2)) (Fin 9)]\<rparr> = Return l)"
proof -
  have v: "\<forall>b\<in>set (Rate (Fin (1 / 2)) (Fin 9) # [Rate (Fin (1 / 4)) (Fin 18), Rate (Fin (1 / 2)) (Fin 10)]).
             valid_rate (Bucket_Rate b)"
    by (simp add: valid_rate_def)
  have a: "args l = [Fin (1 / 4), Fin 18, Fin (1 / 2), Fin 9]"
    if "NewLimiter \<lparr>Redis = Some ex_client, Prefix = ''p:'', Backoff_field = None,
          Buckets = [Rate (Fin (1 / 2)) (Fin 9), Rate (Fin (1 / 4)) (Fin 18),
                     Rate (Fin (1 / 2)) (Fin 10)]\<rparr> = Return l" for l
    using that
    by (auto simp: NewLimiter_def sort_Slice_def less_rate_def flt_ne_def keep_def)
  show ?thesis
    using consolidation_idempotent [OF v, of ex_client "''p:''" None] a
    by (auto simp: Rates_of_def)
qed

subsection \<open>Rejection at construction\<close>

lemma NewLimiter_no_client:
  "Redis c = None \<Longrightarrow> NewLimiter c = Fail (errors_New ''the limiter must have a redis client'')"
  by (simp add: NewLimiter_def)

lemma NewLimiter_no_buckets:
  "Redis c = Some r \<Longrightarrow> Buckets c = [] \<Longrightarrow>
   NewLimiter c = Fail (errors_New ''the limiter must have provided rates'')"
  by (simp add: NewLimiter_def)

lemma NewLimiter_nonpositive:
  "Redis c = Some r \<Longrightarrow> Buckets c \<noteq> [] \<Longrightarrow> \<exists>b\<in>set (Buckets c). nonpositive (Bucket_Rate b) \<Longrightarrow>
   NewLimiter c = Fail (errors_New ''all rate parameters must be positive'')"
  by (simp add: NewLimiter_def resolve_eq)

lemma NewLimiter_returns:
  assumes r: "Redis c = Some r" and ne: "Buckets c \<noteq> []"
    and ok: "\<not> (\<exists>b\<in>set (Buckets c). nonpositive (Bucket_Rate b))"
  shows "is_Return (NewLimiter c)"
proof -
  let ?rs = "map Bucket_Rate (Buckets c)"
  have res: "resolve (Buckets c) = Some ?rs"
    using ok by (simp add: resolve_eq)
  obtain r0 rest where "sort_Slice less_rate ?rs = r0 # rest"
    using length_sort_Slice [of less_rate ?rs] ne by (cases "sort_Slice less_rate ?rs") auto
  then show ?thesis
    using r ne res by (simp add: NewLimiter_def)
qed

lemma NewLimiter_fails_iff:
  "is_Fail (NewLimiter c) \<longleftrightarrow>
     Redis c = None \<or> Buckets c = [] \<or> (\<exists>b\<in>set (Buckets c). nonpositive (Bucket_Rate b))"
proof (cases "Redis c")
  case None
  then show ?thesis by (simp add: NewLimiter_no_client)
next
  case (Some r)
  show ?thesis
  proof (cases "Buckets c = []")
    case True
    with Some show ?thesis by (simp add: NewLimiter_no_buckets)
  next
    case False
    show ?thesis
    proof (cases "\<exists>b\<in>set (Buckets c). nonpositive (Bucket_Rate b)")
      case True
      with Some False show ?thesis by (simp add: NewLimiter_nonpositive)
    next
      case no: False
      have "is_Return (NewLimiter c)"
        using NewLimiter_returns [OF Some False no] .
      then have "\<not> is_Fail (NewLimiter c)"
        by (cases "NewLimiter c") simp_all
      with Some False no show ?thesis by simp
    qed
  qed
qed

text \<open>A tier the pruning loop drops has a burst that is not less than the burst of
  some tier it keeps.\<close>

lemma prune_spec_dropped:
  assumes "x \<in> set ts"
  shows "\<exists>k'\<in>insert k (set (prune_spec k ts)). \<not> flt_lt (burst x) (burst k')"
  using assms
proof (induction ts arbitrary: k)
  case Nil
  then show ?case by simp
next
  case (Cons t ts)
  show ?case
  proof (cases "x = t")
    case True
    then show ?thesis by (auto simp: flt_lt_irrefl)
  next
    case False
    then have x: "x \<in> set ts" using Cons.prems by simp
    show ?thesis
    proof (cases "flt_lt (burst t) (burst k)")
      case True
      with Cons.IH [OF x, of t] show ?thesis by auto
    next
      case False
      with Cons.IH [OF x, of k] show ?thesis by auto
    qed
  qed
qed

lemma flt_lt_le_trans: "flt_lt a b \<Longrightarrow> \<not> flt_lt c b \<Longrightarrow> c \<noteq> NaN \<Longrightarrow> flt_lt a c"
  by (cases a; cases b; cases c) simp_all

lemma consolidate_spec_keeps_nonpositive:
  assumes nn: "\<forall>x\<in>set ts. no_NaN x" and bad: "\<exists>x\<in>set ts. nonpositive x"
  shows "\<exists>x\<in>set (consolidate_spec ts). nonpositive x"
proof (rule ccontr)
  assume no: "\<not> (\<exists>x\<in>set (consolidate_spec ts). nonpositive x)"
  from bad obtain x where x: "x \<in> set ts" "nonpositive x" by blast
  then have "ts \<noteq> []" by auto
  then obtain t rest where srt: "sort_spec ts = t # rest"
    using mset_sort_spec [of ts] by (cases "sort_spec ts") auto
  have K: "consolidate_spec ts = t # prune_spec t rest"
    using srt by (simp add: consolidate_spec_def)
  have sets: "set ts = insert t (set rest)"
    using set_sort_spec [of ts] srt by simp
  have nnK: "\<forall>k\<in>set (consolidate_spec ts). no_NaN k"
    using set_consolidate_spec [of ts] nn by auto
  have validK: "\<forall>k\<in>set (consolidate_spec ts). valid_rate k"
    using no nnK by (auto simp: valid_rate_iff)
  have sorted: "sorted_wrt le_rate (t # rest)"
    using sorted_sort_spec [OF nn] srt by simp
  have "le_rate t x"
    using sorted x(1) sets by (auto simp: less_rate_irrefl)
  then have "\<not> flt_lt (flow x) (flow t)"
    using nn x(1) sets by (auto simp: less_rate_iff)
  moreover have "flt_lt (Fin 0) (flow t)"
    using validK K by (simp add: valid_rate_def)
  moreover have xn: "flow x \<noteq> NaN" "burst x \<noteq> NaN"
    using nn x(1) by (simp_all add: no_NaN_def)
  ultimately have fl: "flt_lt (Fin 0) (flow x)"
    using flt_lt_le_trans [of "Fin 0" "flow t" "flow x"] by simp
  have "\<exists>k'\<in>set (consolidate_spec ts). \<not> flt_lt (burst x) (burst k')"
  proof (cases "x = t")
    case True
    have "t \<in> set (consolidate_spec ts)" using K by simp
    moreover have "\<not> flt_lt (burst x) (burst t)"
      using True by (simp add: flt_lt_irrefl)
    ultimately show ?thesis by blast
  next
    case False
    then have "x \<in> set rest" using x(1) sets by simp
    from prune_spec_dropped [OF this, of t] show ?thesis
      unfolding K by simp
  qed
  then obtain k' where k': "k' \<in> set (consolidate_spec ts)" "\<not> flt_lt (burst x) (burst k')"
    by blast
  have "flt_lt (Fin 0) (burst k')"
    using validK k'(1) by (simp add: valid_rate_def)
  then have "flt_lt (Fin 0) (burst x)"
    using flt_lt_le_trans [of "Fin 0" "burst k'" "burst x"] k'(2) xn by simp
  with fl have "valid_rate x" by (simp add: valid_rate_def)
  with x(2) show False by (simp add: valid_rate_iff)
qed

lemma New_no_NaN:
  assumes "\<forall>b\<in>set (b0 # bs). no_NaN (Bucket_Rate b)"
  shows "is_Fail (New (Some r) b0 (map WithAdditionalBucket bs @ WithPrefix p # backoff_option bo))
           \<longleftrightarrow> (\<exists>b\<in>set (b0 # bs). nonpositive (Bucket_Rate b))"
    and "is_Return (New (Some r) b0 (map WithAdditionalBucket bs @ WithPrefix p # backoff_option bo))
           \<longleftrightarrow> \<not> (\<exists>b\<in>set (b0 # bs). nonpositive (Bucket_Rate b))"
proof -
  let ?rs = "map Bucket_Rate (b0 # bs)"
  let ?N = "New (Some r) b0 (map WithAdditionalBucket bs @ WithPrefix p # backoff_option bo)"
  have nn: "\<forall>x\<in>set ?rs. no_NaN x"
    using assms by auto
  have "?rs \<noteq> []" by simp
  then obtain r0 rest where srt: "sort_Slice less_rate ?rs = r0 # rest"
    using length_sort_Slice [of less_rate ?rs] by (cases "sort_Slice less_rate ?rs") auto
  have tpl: "foldl keep [flow r0, burst r0] rest = template (consolidate_spec ?rs)"
    using code_consolidation [OF nn] srt by simp
  have ex: "list_ex (\<lambda>arg. flt_le arg (Fin 0)) (template (consolidate_spec ?rs))
              \<longleftrightarrow> (\<exists>t\<in>set (consolidate_spec ?rs). nonpositive t)"
    by (auto simp: list_ex_iff set_template nonpositive_def)
  have iff: "(\<exists>t\<in>set (consolidate_spec ?rs). nonpositive t) \<longleftrightarrow> (\<exists>b\<in>set (b0 # bs). nonpositive (Bucket_Rate b))"
  proof
    assume "\<exists>t\<in>set (consolidate_spec ?rs). nonpositive t"
    then show "\<exists>b\<in>set (b0 # bs). nonpositive (Bucket_Rate b)"
      using set_consolidate_spec [of ?rs] by (metis (no_types, lifting) image_iff list.set_map subsetD)
  next
    assume "\<exists>b\<in>set (b0 # bs). nonpositive (Bucket_Rate b)"
    then have "\<exists>x\<in>set ?rs. nonpositive x" by (metis image_eqI list.set_map)
    then show "\<exists>t\<in>set (consolidate_spec ?rs). nonpositive t"
      using consolidate_spec_keeps_nonpositive [OF nn] by blast
  qed
  have N: "?N = (if \<exists>b\<in>set (b0 # bs). nonpositive (Bucket_Rate b)
                 then Fail (errors_New ''limiter: rate parameters must be positive'')
                 else Return \<lparr>args = template (consolidate_spec ?rs), redis = r, prefix = p,
                        backoff = Some (call_Backoff (case bo of None \<Rightarrow> Linear (Fin 2) | Some b \<Rightarrow> b))\<rparr>)"
    using srt tpl ex iff unfolding New_def Let_def New_config
    by (simp del: list.map set_simps)
  show "is_Fail ?N \<longleftrightarrow> (\<exists>b\<in>set (b0 # bs). nonpositive (Bucket_Rate b))"
    unfolding N by simp
  show "is_Return ?N \<longleftrightarrow> \<not> (\<exists>b\<in>set (b0 # bs). nonpositive (Bucket_Rate b))"
    unfolding N by simp
qed

lemma Capacity_no_buffer:
  "hi \<le> lo \<Longrightarrow> nonpositive (Bucket_Rate (Capacity w (Fin lo) (Fin hi)))"
  by (simp add: nonpositive_def flt_sub_def)

lemma NewLimiter_any_client:
  "NewLimiter (c\<lparr>Redis := Some r'\<rparr>) =
     map_outcome (redis_update (\<lambda>_. r')) (NewLimiter (c\<lparr>Redis := Some r\<rparr>))"
  by (simp add: NewLimiter_def Let_def split: option.splits list.splits)

lemma New_any_client:
  "New (Some r') b0 configs = map_outcome (redis_update (\<lambda>_. r')) (New (Some r) b0 configs)"
  by (simp add: New_def Let_def split: option.splits list.splits)

text \<open>
  C4, as amended. \<^verbatim>\<open>NewLimiter\<close> returns an error, which carries no limiter, exactly
  when the client is nil, the bucket list is empty, or some bucket resolves to a flow or
  a burst that is \<^verbatim>\<open><= 0\<close>, whether or not the pruning loop would drop that tier; a
  \<^verbatim>\<open>Capacity\<close> with finite bounds and \<^verbatim>\<open>Max <= Min\<close> resolves to such a tier. \<^verbatim>\<open>New\<close>
  returns an error for a nil client; with a client and tiers without NaN it returns an
  error exactly when some tier has a flow or a burst that is \<^verbatim>\<open><= 0\<close>. Neither
  constructor calls the client: they have no access to the state of the server, and with
  another client in its place each returns the same error, or the same limiter holding
  the other client.
\<close>

theorem construction_rejects:
  "(is_Fail (NewLimiter c) \<longleftrightarrow>
      Redis c = None \<or> Buckets c = [] \<or> (\<exists>b\<in>set (Buckets c). nonpositive (Bucket_Rate b)))
   \<and> (hi \<le> lo \<longrightarrow> nonpositive (Bucket_Rate (Capacity w (Fin lo) (Fin hi))))
   \<and> is_Fail (New None b0 configs)
   \<and> ((\<forall>b\<in>set (b0 # bs). no_NaN (Bucket_Rate b)) \<longrightarrow>
        (is_Fail (New (Some r) b0 (map WithAdditionalBucket bs @ WithPrefix p # backoff_option bo))
           \<longleftrightarrow> (\<exists>b\<in>set (b0 # bs). nonpositive (Bucket_Rate b))))
   \<and> NewLimiter (c\<lparr>Redis := Some r'\<rparr>)
       = map_outcome (redis_update (\<lambda>_. r')) (NewLimiter (c\<lparr>Redis := Some r\<rparr>))
   \<and> New (Some r') b0 configs = map_outcome (redis_update (\<lambda>_. r')) (New (Some r) b0 configs)"
proof (intro conjI impI)
  show "is_Fail (NewLimiter c) \<longleftrightarrow>
      Redis c = None \<or> Buckets c = [] \<or> (\<exists>b\<in>set (Buckets c). nonpositive (Bucket_Rate b))"
    by (rule NewLimiter_fails_iff)
  show "is_Fail (New None b0 configs)"
    by (simp add: New_def)
  show "NewLimiter (c\<lparr>Redis := Some r'\<rparr>)
       = map_outcome (redis_update (\<lambda>_. r')) (NewLimiter (c\<lparr>Redis := Some r\<rparr>))"
    by (rule NewLimiter_any_client)
  show "New (Some r') b0 configs = map_outcome (redis_update (\<lambda>_. r')) (New (Some r) b0 configs)"
    by (rule New_any_client)
next
  assume "hi \<le> lo"
  then show "nonpositive (Bucket_Rate (Capacity w (Fin lo) (Fin hi)))"
    by (rule Capacity_no_buffer)
next
  assume nn: "\<forall>b\<in>set (b0 # bs). no_NaN (Bucket_Rate b)"
  show "is_Fail (New (Some r) b0 (map WithAdditionalBucket bs @ WithPrefix p # backoff_option bo))
           \<longleftrightarrow> (\<exists>b\<in>set (b0 # bs). nonpositive (Bucket_Rate b))"
    by (rule New_no_NaN(1) [OF nn])
qed

text \<open>The repository's test of a \<^verbatim>\<open>Capacity\<close> with no buffer between its minimum and
  its maximum, and the same bucket as the first argument of \<^verbatim>\<open>New\<close>.\<close>

theorem construction_rejects_witness:
  "is_Fail (NewLimiter \<lparr>Redis = Some ex_client, Prefix = [], Backoff_field = None,
              Buckets = [Capacity Minute (Fin 10) (Fin 10)]\<rparr>)
   \<and> is_Fail (New (Some ex_client) (Capacity Minute (Fin 10) (Fin 10))
        (map WithAdditionalBucket [] @ WithPrefix [] # backoff_option None))"
proof -
  have w: "sint Minute \<noteq> 0"
    by (simp add: Minute_def Second_def)
  have nn: "\<forall>b\<in>set (Capacity Minute (Fin 10) (Fin 10) # []). no_NaN (Bucket_Rate b)"
    using Capacity_finite [OF w, of 10 10] by (simp add: no_NaN_def)
  note th = construction_rejects
    [where c = "\<lparr>Redis = Some ex_client, Prefix = [], Backoff_field = None,
           Buckets = [Capacity Minute (Fin 10) (Fin 10)]\<rparr>"
       and w = Minute and lo = 10 and hi = 10 and ?b0.0 = "Capacity Minute (Fin 10) (Fin 10)"
       and bs = "[]" and configs = "[]" and r = ex_client and r' = ex_client and p = "[]"
       and bo = None]
  have np: "nonpositive (Bucket_Rate (Capacity Minute (Fin 10) (Fin 10)))"
    using th by (elim conjE) simp
  show ?thesis
    using np nn th by (elim conjE) simp
qed

text \<open>
  The claim as stated fails. A zero window is accepted: the flow is \<^verbatim>\<open>10 / 0\<close>, positive
  infinity. A \<^verbatim>\<open>Capacity\<close> whose minimum and maximum are both positive infinity is
  accepted: its burst is NaN. And \<^verbatim>\<open>New\<close> accepts the tiers (1, NaN), (2, -1), whose
  second tier the pruning loop drops, where \<^verbatim>\<open>NewLimiter\<close> rejects them.
\<close>

theorem construction_rejects_counterexample:
  "map_outcome args (NewLimiter \<lparr>Redis = Some ex_client, Prefix = [], Backoff_field = None,
       Buckets = [Capacity 0 (Fin 10) (Fin 20)]\<rparr>) = Return [PInf, Fin 10]
   \<and> map_outcome args (NewLimiter \<lparr>Redis = Some ex_client, Prefix = [], Backoff_field = None,
       Buckets = [Capacity Second PInf PInf]\<rparr>) = Return [PInf, NaN]
   \<and> map_outcome args (New (Some ex_client) (Rate (Fin 1) NaN)
       [WithAdditionalBucket (Rate (Fin 2) (Fin (- 1)))]) = Return [Fin 1, NaN]
   \<and> NewLimiter \<lparr>Redis = Some ex_client, Prefix = [], Backoff_field = None,
       Buckets = [Rate (Fin 1) NaN, Rate (Fin 2) (Fin (- 1))]\<rparr>
     = Fail (errors_New ''all rate parameters must be positive'')"
  by (simp add: NewLimiter_def New_def Seconds_def Second_def flt_sub_def inf_of_sign_def
      sort_Slice_def less_rate_def flt_ne_def keep_def WithAdditionalBucket_def
      WithLinearBackoff_def)

subsection \<open>exec\<close>

text \<open>
  C6. On a client with \<^verbatim>\<open>EvalSha\<close>, \<^verbatim>\<open>exec\<close> calls \<^verbatim>\<open>EvalSha\<close> with the hash first. If
  that call returns an error whose message contains \<^verbatim>\<open>NOSCRIPT\<close>, \<^verbatim>\<open>exec\<close> calls
  \<^verbatim>\<open>Eval\<close> with the script once, on the state the first call left, and returns what
  that call returns, error or not; the calls made are these two. In every other case it
  returns the first call's result and error unchanged, and that call is the only one.
  On a client without \<^verbatim>\<open>EvalSha\<close> it calls \<^verbatim>\<open>Eval\<close> with the script once and returns
  its result.
\<close>

theorem exec_fallback:
  "(EvalSha c = None \<longrightarrow>
      exec p c keys as s =
        (fst (Eval c (script p) keys as s), snd (Eval c (script p) keys as s),
         [ByEval (script p) keys as]))
   \<and> (EvalSha c = Some f \<and> f (sha1 p) keys as s = ((res, err), s1) \<longrightarrow>
      exec p c keys as s =
        (if \<exists>e. err = Some e \<and> strings_Contains (message e) ''NOSCRIPT''
         then (fst (Eval c (script p) keys as s1), snd (Eval c (script p) keys as s1),
               [ByEvalSha (sha1 p) keys as, ByEval (script p) keys as])
         else ((res, err), s1, [ByEvalSha (sha1 p) keys as])))"
  by (auto simp: exec_def Let_def split: prod.splits option.splits)

theorem exec_fallback_witness:
  "exec ex_pkg noscript_client [''key''] [Fin 1, Fin (1 / 10), Fin 4] 0 =
     ((Arr [Int64 0, Str ''0.5'', Int64 2], None), 2,
      [ByEvalSha ''bucket.min.lua.sha1'' [''key''] [Fin 1, Fin (1 / 10), Fin 4],
       ByEval ''bucket.min.lua'' [''key''] [Fin 1, Fin (1 / 10), Fin 4]])
   \<and> exec ex_pkg error_client [''key''] [Fin 1, Fin (1 / 10), Fin 4] 0 =
     ((Other, Some (Error ''unknown error'')), 1,
      [ByEvalSha ''bucket.min.lua.sha1'' [''key''] [Fin 1, Fin (1 / 10), Fin 4]])
   \<and> exec ex_pkg ex_client [''key''] [Fin 1, Fin (1 / 10), Fin 4] () =
     ((Arr [Int64 1, Str ''1'', Int64 1], None), (),
      [ByEval ''bucket.min.lua'' [''key''] [Fin 1, Fin (1 / 10), Fin 4]])"
  using
    exec_fallback [where c = noscript_client and f = "the (EvalSha noscript_client)" and p = ex_pkg
      and keys = "[''key'']" and as = "[Fin 1, Fin (1 / 10), Fin 4]" and s = 0 and res = Other
      and err = "Some (Error ''NOSCRIPT No matching script. Please use EVAL.'')" and ?s1.0 = 1]
    exec_fallback [where c = error_client and f = "the (EvalSha error_client)" and p = ex_pkg
      and keys = "[''key'']" and as = "[Fin 1, Fin (1 / 10), Fin 4]" and s = 0 and res = Other
      and err = "Some (Error ''unknown error'')" and ?s1.0 = 1]
    exec_fallback [where c = ex_client and p = ex_pkg and keys = "[''key'']"
      and as = "[Fin 1, Fin (1 / 10), Fin 4]" and s = "()"]
  by (simp add: noscript_client_def error_client_def ex_client_def ex_pkg_def)

subsection \<open>Test\<close>

lemma length_template: "length (template ts) = 2 * length ts"
  by (induction ts) (simp_all add: template_Nil template_Cons)

lemma nth_template_flow: "j < length ts \<Longrightarrow> template ts ! (2 * j) = flow (ts ! j)"
proof (induction ts arbitrary: j)
  case Nil
  then show ?case by simp
next
  case (Cons t ts)
  then show ?case
    by (cases j) (simp_all add: template_Cons)
qed

lemma sint_index:
  fixes i :: "64 word"
  assumes "1 \<le> sint i" "sint i < 2 ^ 62"
  shows "sint (2 * i - 1) = 2 * sint i - 1"
proof -
  have "sint (2 * i) = signed_take_bit 63 (2 * sint i)"
    by (simp add: sint_word_ariths)
  also have "\<dots> = 2 * sint i"
    using assms by (intro signed_take_bit_int_eq_self) simp_all
  finally have two: "sint (2 * i) = 2 * sint i" .
  have "sint (2 * i - 1) = signed_take_bit 63 (sint (2 * i) - 1)"
    by (simp add: sint_word_ariths)
  also have "\<dots> = 2 * sint i - 1"
    unfolding two using assms by (intro signed_take_bit_int_eq_self) simp_all
  finally show ?thesis .
qed

lemma index_at_tier:
  fixes i :: "64 word"
  assumes "1 \<le> sint i" "sint i \<le> int (length ts)" "length ts < 2 ^ 62"
  shows "index_at (cost # template ts) (2 * i - 1) = Some (flow (ts ! (nat (sint i) - 1)))"
proof -
  have "int (length ts) < int (2 ^ 62)"
    using assms(3) by (simp only: of_nat_less_iff)
  then have lt: "sint i < 2 ^ 62"
    using assms(2) by simp
  obtain j where j: "nat (sint i) = Suc j" "j < length ts"
    using assms(1,2) by (cases "nat (sint i)") auto
  have "sint (2 * i - 1) = 2 * sint i - 1"
    using sint_index [OF assms(1) lt] .
  also have "\<dots> = int (Suc (2 * j))"
    using j(1) assms(1) by linarith
  finally have s: "sint (2 * i - 1) = int (Suc (2 * j))" .
  have n: "nat (int (Suc (2 * j))) = Suc (2 * j)"
    by (rule nat_int)
  have nonneg: "0 \<le> int (Suc (2 * j))"
    by simp
  show ?thesis
    unfolding index_at_def s n using j nonneg
    by (simp add: length_template nth_template_flow del: of_nat_Suc)
qed

lemma exec_made:
  assumes "exec p c keys as s = (r, s', made)"
  shows "made \<noteq> [] \<and> set made \<subseteq> {ByEvalSha (sha1 p) keys as, ByEval (script p) keys as}"
  using assms by (auto simp: exec_def Let_def split: prod.splits option.splits if_splits)

lemma Test_after_exec:
  assumes "exec p (redis l) [prefix l @ key] (cost # args l) s = ((raw, err), s', made)"
  shows "Test p l key cost s =
     (case err of
        Some e \<Rightarrow> (Fail e, s', made)
      | None \<Rightarrow>
          (case validate p raw of
             Inl e \<Rightarrow> (Fail e, s', made)
           | Inr (allow, v, index) \<Rightarrow>
               if allow = 1
               then (Return \<lparr>Allow = True, Free = v, Wait = 0\<rparr>, s', made)
               else
                 (case index_at (cost # args l) (2 * index - 1) of
                    None \<Rightarrow> (Panic, s', made)
                  | Some flow_i \<Rightarrow>
                      (Return \<lparr>Allow = False, Free = Fin 0,
                         Wait = Duration_of
                           (flt_mul (flt_mul (flt_div cost flow_i)
                              (call_Backoff (backoff l) (flt_div v cost))) (Fin 1000000000))\<rparr>,
                       s', made))))"
  using assms
  by (auto simp: Test_def Let_def float64_of_Duration_def Second_def
      split: option.splits sum.splits prod.splits)

lemma Test_fn_after_exec:
  assumes "exec p (redis l) [prefix l @ key] (cost # args l) s = ((raw, err), s', made)"
  shows "Test_fn p l key cost s =
     (case err of
        Some e \<Rightarrow> (Fail e, s', made)
      | None \<Rightarrow>
          (case validate_fn p raw of
             Inl e \<Rightarrow> (Fail e, s', made)
           | Inr (allow, v, index) \<Rightarrow>
               if allow = 1
               then (Return \<lparr>Allow = True, Free = v, Wait = 0\<rparr>, s', made)
               else
                 (case index_at (cost # args l) (2 * index - 1) of
                    None \<Rightarrow> (Panic, s', made)
                  | Some flow_i \<Rightarrow>
                      (case backoff l of
                         None \<Rightarrow> (Panic, s', made)
                       | Some bf \<Rightarrow>
                          (Return \<lparr>Allow = False, Free = Fin 0,
                             Wait = Duration_of
                               (flt_mul (flt_mul (flt_div cost flow_i) (bf (flt_div v cost)))
                                  (Fin 1000000000))\<rparr>,
                           s', made)))))"
  using assms
  by (auto simp: Test_fn_def Let_def float64_of_Duration_def Second_def
      split: option.splits sum.splits prod.splits)

lemma validate_well_typed:
  "ParseFloat p val = Some v \<Longrightarrow>
   validate p (Arr [Int64 allow, Str val, Int64 index]) = Inr (allow, v, index)"
  by (simp add: validate_def)

lemma validate_ill_typed:
  "\<not> well_typed p raw \<Longrightarrow> validate p raw = Inl (errors_New ''invalid type returned from eval'')"
  by (auto simp: validate_def well_typed_def split: any.splits list.splits option.splits)

lemma validate_fn_well_typed:
  "ParseFloat p val = Some v \<Longrightarrow>
   validate_fn p (Arr [Int64 allow, Str val, Int64 index]) = Inr (allow, v, index)"
  by (simp add: validate_fn_def)

lemma validate_fn_ill_typed:
  "\<not> well_typed p raw \<Longrightarrow>
   validate_fn p raw = Inl (errors_New ''limiter: invalid type returned from eval'')"
  by (auto simp: validate_fn_def well_typed_def split: any.splits list.splits option.splits)

text \<open>
  C3. \<^verbatim>\<open>Test(key, cost)\<close> of a limiter whose argument template is that of the tiers
  \<open>ts\<close> calls the client with the one key \<^verbatim>\<open>prefix + key\<close> and the arguments
  \<^verbatim>\<open>[cost, flow_1, burst_1, ..., flow_n, burst_n]\<close>, and with nothing else. An error of
  the client is returned as it is. On the response \<^verbatim>\<open>[1, value, index]\<close> the result is
  \<^verbatim>\<open>Result{Allow: true, Free: value}\<close>. On the response \<^verbatim>\<open>[0, value, index]\<close> with
  \<open>1 \<le> index \<le> n\<close> the result is \<^verbatim>\<open>Result{Allow: false, Wait: w}\<close>, where \<open>w\<close> is the
  duration, in nanoseconds, of \<^verbatim>\<open>(cost / flow_index) * backoff(value / cost)\<close> seconds, the
  flow taken from the argument vector at \<^verbatim>\<open>2*index - 1\<close>. This holds of the \<^verbatim>\<open>Test\<close> of
  both packages.
\<close>

theorem Test_protocol:
  assumes "length ts < 2 ^ 62"
    and "args l = template ts"
    and "exec p (redis l) [prefix l @ key] (cost # template ts) s = ((raw, err), s', made)"
    and "args l' = template ts" and "redis l' = redis l" and "prefix l' = prefix l"
    and "backoff l' = Some bf"
  shows "made \<noteq> []
     \<and> set made \<subseteq> {ByEvalSha (sha1 p) [prefix l @ key] (cost # template ts),
                     ByEval (script p) [prefix l @ key] (cost # template ts)}
     \<and> snd (Test p l key cost s) = (s', made)
     \<and> snd (Test_fn p l' key cost s) = (s', made)
     \<and> (\<forall>e. err = Some e \<longrightarrow>
          fst (Test p l key cost s) = Fail e \<and> fst (Test_fn p l' key cost s) = Fail e)
     \<and> (\<forall>val index v.
          err = None \<and> raw = Arr [Int64 1, Str val, Int64 index] \<and> ParseFloat p val = Some v \<longrightarrow>
          fst (Test p l key cost s) = Return \<lparr>Allow = True, Free = v, Wait = 0\<rparr>
          \<and> fst (Test_fn p l' key cost s) = Return \<lparr>Allow = True, Free = v, Wait = 0\<rparr>)
     \<and> (\<forall>val index v.
          err = None \<and> raw = Arr [Int64 0, Str val, Int64 index] \<and> ParseFloat p val = Some v
          \<and> 1 \<le> sint index \<and> sint index \<le> int (length ts) \<longrightarrow>
          fst (Test p l key cost s) =
            Return \<lparr>Allow = False, Free = Fin 0,
              Wait = Duration_of
                (flt_mul (flt_mul (flt_div cost (flow (ts ! (nat (sint index) - 1))))
                   (call_Backoff (backoff l) (flt_div v cost))) (Fin 1000000000))\<rparr>
          \<and> fst (Test_fn p l' key cost s) =
            Return \<lparr>Allow = False, Free = Fin 0,
              Wait = Duration_of
                (flt_mul (flt_mul (flt_div cost (flow (ts ! (nat (sint index) - 1))))
                   (bf (flt_div v cost))) (Fin 1000000000))\<rparr>)"
proof -
  have ex: "exec p (redis l) [prefix l @ key] (cost # args l) s = ((raw, err), s', made)"
    using assms(2,3) by simp
  have ex': "exec p (redis l') [prefix l' @ key] (cost # args l') s = ((raw, err), s', made)"
    using assms(3-6) by simp
  note T = Test_after_exec [OF ex]
  note T' = Test_fn_after_exec [OF ex']
  have made: "made \<noteq> [] \<and> set made \<subseteq> {ByEvalSha (sha1 p) [prefix l @ key] (cost # template ts),
                     ByEval (script p) [prefix l @ key] (cost # template ts)}"
    using exec_made [OF assms(3)] .
  have snd: "snd (Test p l key cost s) = (s', made)"
    unfolding T by (simp split: option.splits sum.splits prod.splits)
  have snd': "snd (Test_fn p l' key cost s) = (s', made)"
    unfolding T' by (simp split: option.splits sum.splits prod.splits)
  have err: "fst (Test p l key cost s) = Fail e \<and> fst (Test_fn p l' key cost s) = Fail e"
    if "err = Some e" for e
    unfolding T T' using that by simp
  have allow: "fst (Test p l key cost s) = Return \<lparr>Allow = True, Free = v, Wait = 0\<rparr>
          \<and> fst (Test_fn p l' key cost s) = Return \<lparr>Allow = True, Free = v, Wait = 0\<rparr>"
    if "err = None" "raw = Arr [Int64 1, Str val, Int64 index]" "ParseFloat p val = Some v"
    for val index v
    unfolding T T' using that
    by (simp add: validate_well_typed validate_fn_well_typed)
  have deny: "fst (Test p l key cost s) =
            Return \<lparr>Allow = False, Free = Fin 0,
              Wait = Duration_of
                (flt_mul (flt_mul (flt_div cost (flow (ts ! (nat (sint index) - 1))))
                   (call_Backoff (backoff l) (flt_div v cost))) (Fin 1000000000))\<rparr>
          \<and> fst (Test_fn p l' key cost s) =
            Return \<lparr>Allow = False, Free = Fin 0,
              Wait = Duration_of
                (flt_mul (flt_mul (flt_div cost (flow (ts ! (nat (sint index) - 1))))
                   (bf (flt_div v cost))) (Fin 1000000000))\<rparr>"
    if "err = None" "raw = Arr [Int64 0, Str val, Int64 index]" "ParseFloat p val = Some v"
      "1 \<le> sint index" "sint index \<le> int (length ts)"
    for val index v
  proof -
    have ix: "index_at (cost # template ts) (2 * index - 1) = Some (flow (ts ! (nat (sint index) - 1)))"
      using index_at_tier [OF that(4,5) assms(1)] .
    show ?thesis
      unfolding T T' using that(1,2,3) ix assms(2,4,7)
      by (simp add: validate_well_typed validate_fn_well_typed)
  qed
  show ?thesis
    using made snd snd' err allow deny by blast
qed


theorem Test_protocol_witness:
  "Test ex_pkg
     \<lparr>args = [Fin (1 / 10), Fin 4, Fin (2 / 10), Fin 2, Fin (4 / 10), Fin 1],
      redis = noscript_client, prefix = ''p:'', backoff = Linear (Fin 2)\<rparr>
     ''key'' (Fin 1) 0
   = (Return \<lparr>Allow = False, Free = Fin 0, Wait = 5000000000\<rparr>, 2,
      [ByEvalSha ''bucket.min.lua.sha1'' [''p:key'']
         [Fin 1, Fin (1 / 10), Fin 4, Fin (2 / 10), Fin 2, Fin (4 / 10), Fin 1],
       ByEval ''bucket.min.lua'' [''p:key'']
         [Fin 1, Fin (1 / 10), Fin 4, Fin (2 / 10), Fin 2, Fin (4 / 10), Fin 1]])"
proof -
  let ?ts = "[(Fin (1 / 10), Fin 4), (Fin (2 / 10), Fin 2), (Fin (4 / 10), Fin 1)]"
  let ?l = "\<lparr>args = [Fin (1 / 10), Fin 4, Fin (2 / 10), Fin 2, Fin (4 / 10), Fin 1],
      redis = noscript_client, prefix = ''p:'', backoff = Linear (Fin 2)\<rparr>"
  let ?l' = "\<lparr>args = [Fin (1 / 10), Fin 4, Fin (2 / 10), Fin 2, Fin (4 / 10), Fin 1],
      redis = noscript_client, prefix = ''p:'', backoff = Some (call_Backoff (Linear (Fin 2)))\<rparr>"
  let ?made = "[ByEvalSha ''bucket.min.lua.sha1'' [''p:key'']
         [Fin 1, Fin (1 / 10), Fin 4, Fin (2 / 10), Fin 2, Fin (4 / 10), Fin 1],
       ByEval ''bucket.min.lua'' [''p:key'']
         [Fin 1, Fin (1 / 10), Fin 4, Fin (2 / 10), Fin 2, Fin (4 / 10), Fin 1]]"
  have len: "length ?ts < 2 ^ 62" by simp
  have tpl: "args ?l = template ?ts" by (simp add: template_def)
  have ex: "exec ex_pkg (redis ?l) [prefix ?l @ ''key''] (Fin 1 # template ?ts) 0
              = ((Arr [Int64 0, Str ''0.5'', Int64 2], None), 2, ?made)"
    by (simp add: exec_def noscript_client_def ex_pkg_def template_def)
  have pf: "ParseFloat ex_pkg ''0.5'' = Some (Fin (1 / 2))"
    by (simp add: ex_pkg_def)
  have dur: "Duration_of (Fin 5000000000) = 5000000000"
    by (simp add: trunc_def)
  have l': "args ?l' = template ?ts" "redis ?l' = redis ?l" "prefix ?l' = prefix ?l"
    "backoff ?l' = Some (call_Backoff (Linear (Fin 2)))"
    by (simp_all add: template_def)
  note th = Test_protocol [OF len tpl ex l']
  have s: "snd (Test ex_pkg ?l ''key'' (Fin 1) 0) = (2, ?made)"
    using th by blast
  have pre: "None = (None :: error option)
      \<and> Arr [Int64 0, Str ''0.5'', Int64 2] = Arr [Int64 0, Str ''0.5'', Int64 2]
      \<and> ParseFloat ex_pkg ''0.5'' = Some (Fin (1 / 2))
      \<and> 1 \<le> sint (2 :: 64 word) \<and> sint (2 :: 64 word) \<le> int (length ?ts)"
    using pf by simp
  have "fst (Test ex_pkg ?l ''key'' (Fin 1) 0)
      = Return \<lparr>Allow = False, Free = Fin 0,
              Wait = Duration_of
                (flt_mul (flt_mul (flt_div (Fin 1) (flow (?ts ! (nat (sint (2 :: 64 word)) - 1))))
                   (call_Backoff (backoff ?l) (flt_div (Fin (1 / 2)) (Fin 1)))) (Fin 1000000000))\<rparr>"
    using th pre by blast
  also have "\<dots> = Return \<lparr>Allow = False, Free = Fin 0, Wait = 5000000000\<rparr>"
    using dur by simp
  finally have f: "fst (Test ex_pkg ?l ''key'' (Fin 1) 0)
      = Return \<lparr>Allow = False, Free = Fin 0, Wait = 5000000000\<rparr>" .
  show ?thesis
    using s f by (simp add: prod_eq_iff)
qed

subsection \<open>Decoding the response\<close>

text \<open>
  C5, as amended. When the client returns a response with a nil error, \<^verbatim>\<open>Test\<close>
  returns the error of \<^verbatim>\<open>validate\<close>, and no \<^verbatim>\<open>Result\<close>, exactly when the response is not
  an array of three elements that are an \<^verbatim>\<open>int64\<close>, a string that \<^verbatim>\<open>strconv.ParseFloat\<close>
  parses, and an \<^verbatim>\<open>int64\<close>. The values are not checked: a response of these types whose
  first element is 1 gives the allowing \<^verbatim>\<open>Result\<close> whatever its index, and one with any
  other first element gives the denying \<^verbatim>\<open>Result\<close> whenever \<^verbatim>\<open>2*index - 1\<close> is within the
  argument vector.
\<close>

theorem Test_decoding:
  assumes "exec p (redis l) [prefix l @ key] (cost # args l) s = ((raw, None), s', made)"
  shows "(fst (Test p l key cost s) = Fail (errors_New ''invalid type returned from eval'')
            \<longleftrightarrow> \<not> well_typed p raw)
     \<and> (is_Fail (fst (Test p l key cost s)) \<longleftrightarrow> \<not> well_typed p raw)
     \<and> (\<forall>allow val index v.
          raw = Arr [Int64 allow, Str val, Int64 index] \<and> ParseFloat p val = Some v \<longrightarrow>
          (allow = 1 \<longrightarrow>
             fst (Test p l key cost s) = Return \<lparr>Allow = True, Free = v, Wait = 0\<rparr>)
          \<and> (\<forall>flow_i. allow \<noteq> 1 \<and> index_at (cost # args l) (2 * index - 1) = Some flow_i \<longrightarrow>
             fst (Test p l key cost s) =
               Return \<lparr>Allow = False, Free = Fin 0,
                 Wait = Duration_of
                   (flt_mul (flt_mul (flt_div cost flow_i)
                      (call_Backoff (backoff l) (flt_div v cost))) (Fin 1000000000))\<rparr>))"
proof -
  note T = Test_after_exec [OF assms]
  have ill: "fst (Test p l key cost s) = Fail (errors_New ''invalid type returned from eval'')"
    if "\<not> well_typed p raw"
    unfolding T by (simp add: validate_ill_typed [OF that])
  have well: "\<not> is_Fail (fst (Test p l key cost s))" if "well_typed p raw"
  proof -
    from that obtain allow val index v
      where "raw = Arr [Int64 allow, Str val, Int64 index]" "ParseFloat p val = Some v"
      unfolding well_typed_def by blast
    then show ?thesis
      unfolding T by (simp add: validate_well_typed split: option.splits)
  qed
  have ok: "(allow = 1 \<longrightarrow>
             fst (Test p l key cost s) = Return \<lparr>Allow = True, Free = v, Wait = 0\<rparr>)
          \<and> (\<forall>flow_i. allow \<noteq> 1 \<and> index_at (cost # args l) (2 * index - 1) = Some flow_i \<longrightarrow>
             fst (Test p l key cost s) =
               Return \<lparr>Allow = False, Free = Fin 0,
                 Wait = Duration_of
                   (flt_mul (flt_mul (flt_div cost flow_i)
                      (call_Backoff (backoff l) (flt_div v cost))) (Fin 1000000000))\<rparr>)"
    if "raw = Arr [Int64 allow, Str val, Int64 index]" "ParseFloat p val = Some v"
    for allow val index v
    unfolding T using that by (simp add: validate_well_typed)
  have 1: "fst (Test p l key cost s) = Fail (errors_New ''invalid type returned from eval'')
            \<longleftrightarrow> \<not> well_typed p raw"
    using ill well by (metis outcome.disc(5))
  have 2: "is_Fail (fst (Test p l key cost s)) \<longleftrightarrow> \<not> well_typed p raw"
    using ill well by (metis outcome.disc(5))
  show ?thesis
    using 1 2 ok by blast
qed

theorem Test_decoding_witness:
  "fst (Test ex_pkg \<lparr>args = [Fin (1 / 10), Fin 4], redis = bad_client, prefix = [],
          backoff = Linear (Fin 2)\<rparr> ''key'' (Fin 1) ())
     = Fail (errors_New ''invalid type returned from eval'')
   \<and> \<not> well_typed ex_pkg (Str ''OK'')"
proof -
  let ?l = "\<lparr>args = [Fin (1 / 10), Fin 4], redis = bad_client, prefix = [],
          backoff = Linear (Fin 2)\<rparr>"
  have ex: "exec ex_pkg (redis ?l) [prefix ?l @ ''key''] (Fin 1 # args ?l) ()
              = ((Str ''OK'', None), (), [ByEval ''bucket.min.lua'' [''key''] [Fin 1, Fin (1 / 10), Fin 4]])"
    by (simp add: exec_def bad_client_def ex_pkg_def)
  have nw: "\<not> well_typed ex_pkg (Str ''OK'')"
    by (simp add: well_typed_def)
  show ?thesis
    using Test_decoding [OF ex] nw by simp
qed

text \<open>
  The claim as stated fails: the response \<^verbatim>\<open>[2, "1", 1]\<close>, whose first element is
  neither 0 nor 1, is decoded as a denial with a wait of 20 seconds; and on the response
  \<^verbatim>\<open>[0, "1", 7]\<close>, whose index names no tier of the limiter, \<^verbatim>\<open>Test\<close> panics on the index
  rather than returning an error.
\<close>

theorem Test_decoding_counterexample:
  "fst (Test ex_pkg \<lparr>args = [Fin (1 / 10), Fin 4], redis = odd_client, prefix = [],
          backoff = Linear (Fin 2)\<rparr> ''key'' (Fin 1) ())
     = Return \<lparr>Allow = False, Free = Fin 0, Wait = 20000000000\<rparr>
   \<and> fst (Test ex_pkg \<lparr>args = [Fin (1 / 10), Fin 4], redis = far_client, prefix = [],
          backoff = Linear (Fin 2)\<rparr> ''key'' (Fin 1) ())
     = Panic"
  by (simp add: Test_def exec_def odd_client_def far_client_def ex_pkg_def validate_def
      index_at_def float64_of_Duration_def Second_def trunc_def)

subsection \<open>Backoff\<close>

lemma math_Pow_positive: "0 < x \<Longrightarrow> math_Pow (Fin x) (Fin y) = Fin (x powr y)"
  by (simp add: math_Pow_def)

lemma NewLimiter_backoff:
  assumes "NewLimiter c = Return l"
  shows "backoff l = (case Backoff_field c of None \<Rightarrow> Linear (Fin 2) | Some b \<Rightarrow> b)"
  using assms
  by (auto simp: NewLimiter_def Let_def split: option.splits if_splits list.splits)

lemma New_backoff:
  assumes "New rd b0 (map WithAdditionalBucket bs @ WithPrefix p # backoff_option bo) = Return l"
  shows "backoff l = Some (call_Backoff (case bo of None \<Rightarrow> Linear (Fin 2) | Some b \<Rightarrow> b))"
  using assms unfolding New_def Let_def New_config
  by (auto split: option.splits if_splits list.splits)

text \<open>
  C7. The four backoff functions: \<^verbatim>\<open>Constant(k)\<close> returns \<open>k\<close>, \<^verbatim>\<open>Linear(k)\<close> the product
  of \<open>k\<close> and the ratio, \<^verbatim>\<open>Power(k)\<close> is \<^verbatim>\<open>math.Pow(ratio, k)\<close> and \<^verbatim>\<open>Exponential(k)\<close> is
  \<^verbatim>\<open>math.Pow(k, ratio)\<close>; on finite values the product is the real product, and on a
  positive base the power is the real power. So \<^verbatim>\<open>Constant(2)\<close>, \<^verbatim>\<open>Linear(2)\<close>,
  \<^verbatim>\<open>Power(2)\<close> and \<^verbatim>\<open>Exponential(2)\<close> take 3 to 2, 6, 9 and 8. The four options of the
  functional-options package set these same functions. A limiter constructed without a
  backoff has \<^verbatim>\<open>Linear(2)\<close>.
\<close>

theorem Backoff_functions:
  "call_Backoff (Constant k) r = k
   \<and> call_Backoff (Linear k) r = flt_mul k r
   \<and> call_Backoff (Power k) r = math_Pow r k
   \<and> call_Backoff (Exponential k) r = math_Pow k r
   \<and> call_Backoff (Linear (Fin x)) (Fin y) = Fin (x * y)
   \<and> (0 < y \<longrightarrow> call_Backoff (Power (Fin x)) (Fin y) = Fin (y powr x))
   \<and> (0 < x \<longrightarrow> call_Backoff (Exponential (Fin x)) (Fin y) = Fin (x powr y))
   \<and> call_Backoff (Constant (Fin 2)) (Fin 3) = Fin 2
   \<and> call_Backoff (Linear (Fin 2)) (Fin 3) = Fin 6
   \<and> call_Backoff (Power (Fin 2)) (Fin 3) = Fin 9
   \<and> call_Backoff (Exponential (Fin 2)) (Fin 3) = Fin 8
   \<and> cfg_backoff (WithConstantBackoff k c) = Some (call_Backoff (Constant k))
   \<and> cfg_backoff (WithLinearBackoff k c) = Some (call_Backoff (Linear k))
   \<and> cfg_backoff (WithPowerBackoff k c) = Some (call_Backoff (Power k))
   \<and> cfg_backoff (WithExponentialBackoff k c) = Some (call_Backoff (Exponential k))
   \<and> (\<forall>l. NewLimiter \<lparr>Redis = rd, Prefix = p, Backoff_field = None, Buckets = bs\<rparr> = Return l
          \<longrightarrow> backoff l = Linear (Fin 2))
   \<and> (\<forall>l. New rd b0 (map WithAdditionalBucket bs' @ WithPrefix p # backoff_option None) = Return l
          \<longrightarrow> backoff l = Some (call_Backoff (Linear (Fin 2))))"
proof -
  have pw: "math_Pow (Fin 3) (Fin 2) = Fin 9" "math_Pow (Fin 2) (Fin 3) = Fin 8"
    by (simp_all add: math_Pow_positive)
  have fn: "cfg_backoff (WithConstantBackoff k c) = Some (call_Backoff (Constant k))"
    "cfg_backoff (WithLinearBackoff k c) = Some (call_Backoff (Linear k))"
    "cfg_backoff (WithPowerBackoff k c) = Some (call_Backoff (Power k))"
    "cfg_backoff (WithExponentialBackoff k c) = Some (call_Backoff (Exponential k))"
    by (simp_all add: WithConstantBackoff_def WithLinearBackoff_def WithPowerBackoff_def
        WithExponentialBackoff_def fun_eq_iff)
  have d1: "backoff l = Linear (Fin 2)"
    if "NewLimiter \<lparr>Redis = rd, Prefix = p, Backoff_field = None, Buckets = bs\<rparr> = Return l" for l
    using NewLimiter_backoff [OF that] by simp
  have d2: "backoff l = Some (call_Backoff (Linear (Fin 2)))"
    if "New rd b0 (map WithAdditionalBucket bs' @ WithPrefix p # backoff_option None) = Return l" for l
    using New_backoff [OF that] by simp
  show ?thesis
    using pw fn d1 d2 by (simp add: math_Pow_positive)
qed

theorem Backoff_functions_witness:
  "(0 :: real) < 3 \<and> (0 :: real) < 2
   \<and> call_Backoff (Power (Fin 2)) (Fin 3) = Fin 9
   \<and> call_Backoff (Exponential (Fin 2)) (Fin 3) = Fin 8
   \<and> (NewLimiter \<lparr>Redis = Some ex_client, Prefix = [], Backoff_field = None,
         Buckets = [Rate (Fin (1 / 2)) (Fin 9)]\<rparr>
       = Return \<lparr>args = [Fin (1 / 2), Fin 9], redis = ex_client, prefix = [],
           backoff = Linear (Fin 2)\<rparr>)"
proof -
  have n: "NewLimiter \<lparr>Redis = Some ex_client, Prefix = [], Backoff_field = None,
         Buckets = [Rate (Fin (1 / 2)) (Fin 9)]\<rparr>
       = Return \<lparr>args = [Fin (1 / 2), Fin 9], redis = ex_client, prefix = [],
           backoff = Linear (Fin 2)\<rparr>"
    by (simp add: NewLimiter_def sort_Slice_def)
  show ?thesis
    using Backoff_functions [of "Fin 2" "Fin 3" 2 3 "\<lparr>rates = [], cfg_prefix = [], cfg_backoff = None\<rparr>"
        "Some ex_client" "[]"
        "[Rate (Fin (1 / 2)) (Fin 9)]" "Rate (Fin (1 / 2)) (Fin 9)" "[]"] n
    by simp
qed

subsection \<open>The two packages\<close>

lemma Tests_agree:
  assumes "args l' = args l" "prefix l' = prefix l" "redis l' = redis l"
    "backoff l' = Some (call_Backoff (backoff l))"
  shows "same_outcome (fst (Test p l key cost s)) (fst (Test_fn p l' key cost s))
       \<and> snd (Test p l key cost s) = snd (Test_fn p l' key cost s)"
proof -
  obtain raw err s' made
    where ex: "exec p (redis l) [prefix l @ key] (cost # args l) s = ((raw, err), s', made)"
    by (metis prod.exhaust)
  then have ex': "exec p (redis l') [prefix l' @ key] (cost # args l') s = ((raw, err), s', made)"
    using assms by simp
  note T = Test_after_exec [OF ex]
  note T' = Test_fn_after_exec [OF ex']
  show ?thesis
  proof (cases err)
    case (Some e)
    then show ?thesis unfolding T T' by (simp add: same_outcome_def)
  next
    case None
    show ?thesis
    proof (cases "well_typed p raw")
      case False
      then show ?thesis
        unfolding T T' using None
        by (simp add: validate_ill_typed validate_fn_ill_typed same_outcome_def)
    next
      case True
      then obtain allow val index v
        where "raw = Arr [Int64 allow, Str val, Int64 index]" "ParseFloat p val = Some v"
        unfolding well_typed_def by blast
      then show ?thesis
        unfolding T T' using None assms
        by (simp add: validate_well_typed validate_fn_well_typed same_outcome_def
            split: option.splits)
    qed
  qed
qed

lemma no_NaN_valid: "no_NaN r \<Longrightarrow> \<not> nonpositive r \<Longrightarrow> valid_rate r"
  by (simp add: valid_rate_iff)

text \<open>
  C10, as amended. Let the buckets resolve to tiers without NaN. Then \<^verbatim>\<open>NewLimiter\<close>,
  for a configuration struct, and \<^verbatim>\<open>New\<close>, for the same client, the first bucket, and the
  options that add the other buckets, set the prefix and choose the same backoff, either
  both return an error or both return a limiter, and the two limiters have the same
  arguments, prefix and client and, as functions, the same backoff. The \<^verbatim>\<open>Test\<close> methods
  of two such limiters, from the same state of the server, make the same calls and leave
  the same state, and they return the same result, panic or error, except that for a
  response \<^verbatim>\<open>validate\<close> rejects each returns the error of its own package's
  \<^verbatim>\<open>validate\<close>, whose messages differ.
\<close>

theorem constructors_agree:
  assumes "\<forall>b\<in>set (b0 # bs). no_NaN (Bucket_Rate b)"
  shows "(is_Fail (NewLimiter \<lparr>Redis = rd, Prefix = px, Backoff_field = bo, Buckets = b0 # bs\<rparr>)
            \<longleftrightarrow> is_Fail (New rd b0 (map WithAdditionalBucket bs @ WithPrefix px # backoff_option bo)))
     \<and> (is_Return (NewLimiter \<lparr>Redis = rd, Prefix = px, Backoff_field = bo, Buckets = b0 # bs\<rparr>)
            \<longleftrightarrow> is_Return (New rd b0 (map WithAdditionalBucket bs @ WithPrefix px # backoff_option bo)))
     \<and> (\<forall>l. NewLimiter \<lparr>Redis = rd, Prefix = px, Backoff_field = bo, Buckets = b0 # bs\<rparr> = Return l
          \<longrightarrow> (\<exists>l'. New rd b0 (map WithAdditionalBucket bs @ WithPrefix px # backoff_option bo) = Return l'
                \<and> args l' = args l \<and> prefix l' = prefix l \<and> redis l' = redis l
                \<and> backoff l' = Some (call_Backoff (backoff l))))
     \<and> (\<forall>l l'. args l' = args l \<and> prefix l' = prefix l \<and> redis l' = redis l
            \<and> backoff l' = Some (call_Backoff (backoff l))
          \<longrightarrow> same_outcome (fst (Test p l key cost s)) (fst (Test_fn p l' key cost s))
              \<and> snd (Test p l key cost s) = snd (Test_fn p l' key cost s))"
proof -
  let ?c = "\<lparr>Redis = rd, Prefix = px, Backoff_field = bo, Buckets = b0 # bs\<rparr>"
  let ?N = "New rd b0 (map WithAdditionalBucket bs @ WithPrefix px # backoff_option bo)"
  let ?bad = "\<exists>b\<in>set (b0 # bs). nonpositive (Bucket_Rate b)"
  have cons: "(is_Fail (NewLimiter ?c) \<longleftrightarrow> is_Fail ?N)
      \<and> (is_Return (NewLimiter ?c) \<longleftrightarrow> is_Return ?N)
      \<and> (\<forall>l. NewLimiter ?c = Return l
          \<longrightarrow> (\<exists>l'. ?N = Return l'
                \<and> args l' = args l \<and> prefix l' = prefix l \<and> redis l' = redis l
                \<and> backoff l' = Some (call_Backoff (backoff l))))"
  proof (cases rd)
    case None
    then show ?thesis by (simp add: NewLimiter_def New_def)
  next
    case (Some r)
    show ?thesis
    proof (cases ?bad)
      case True
      have "NewLimiter ?c = Fail (errors_New ''all rate parameters must be positive'')"
        using NewLimiter_nonpositive [of ?c r] Some True by simp
      moreover have "is_Fail ?N"
        using New_no_NaN(1) [OF assms, of r px bo] Some True by simp
      ultimately show ?thesis
        by (cases ?N) simp_all
    next
      case False
      then have v: "\<forall>b\<in>set (b0 # bs). valid_rate (Bucket_Rate b)"
        using assms no_NaN_valid by blast
      have 1: "NewLimiter ?c =
           Return \<lparr>args = template (consolidate_spec (map Bucket_Rate (b0 # bs))),
                   redis = r, prefix = px,
                   backoff = (case bo of None \<Rightarrow> Linear (Fin 2) | Some b \<Rightarrow> b)\<rparr>"
        using NewLimiter_valid [of ?c r] Some v by simp
      have 2: "?N =
           Return \<lparr>args = template (consolidate_spec (map Bucket_Rate (b0 # bs))),
                   redis = r, prefix = px,
                   backoff = Some (call_Backoff (case bo of None \<Rightarrow> Linear (Fin 2) | Some b \<Rightarrow> b))\<rparr>"
        using New_valid [OF v, of r px bo] Some by simp
      show ?thesis
        unfolding 1 2 by simp
    qed
  qed
  have tests: "same_outcome (fst (Test p l key cost s)) (fst (Test_fn p l' key cost s))
              \<and> snd (Test p l key cost s) = snd (Test_fn p l' key cost s)"
    if "args l' = args l \<and> prefix l' = prefix l \<and> redis l' = redis l
            \<and> backoff l' = Some (call_Backoff (backoff l))" for l l'
    using Tests_agree [of l' l p key cost s] that by simp
  show ?thesis
    using cons tests by blast
qed

theorem constructors_agree_witness:
  "is_Return (NewLimiter \<lparr>Redis = Some ex_client, Prefix = ''p:'', Backoff_field = Some (Power (Fin 2)),
       Buckets = [Rate (Fin (1 / 2)) (Fin 9), Rate (Fin (1 / 4)) (Fin 18)]\<rparr>)
   \<and> is_Return (New (Some ex_client) (Rate (Fin (1 / 2)) (Fin 9))
       (map WithAdditionalBucket [Rate (Fin (1 / 4)) (Fin 18)] @ WithPrefix ''p:''
          # backoff_option (Some (Power (Fin 2)))))"
proof -
  have nn: "\<forall>b\<in>set (Rate (Fin (1 / 2)) (Fin 9) # [Rate (Fin (1 / 4)) (Fin 18)]). no_NaN (Bucket_Rate b)"
    by (simp add: no_NaN_def)
  have r: "is_Return (NewLimiter \<lparr>Redis = Some ex_client, Prefix = ''p:'', Backoff_field = Some (Power (Fin 2)),
       Buckets = [Rate (Fin (1 / 2)) (Fin 9), Rate (Fin (1 / 4)) (Fin 18)]\<rparr>)"
    by (simp add: NewLimiter_def sort_Slice_def less_rate_def flt_ne_def)
  show ?thesis
    using constructors_agree [OF nn, of "Some ex_client" "''p:''" "Some (Power (Fin 2))"
        ex_pkg "''key''" "Fin 1" "()"] r
    by (elim conjE) simp
qed

text \<open>
  The claim as stated fails. On a response that is no array the two \<^verbatim>\<open>Test\<close> methods
  return errors with different messages. And the tiers (1, NaN), (2, -1) are rejected
  by \<^verbatim>\<open>NewLimiter\<close> and accepted by \<^verbatim>\<open>New\<close>.
\<close>

theorem constructors_agree_counterexample:
  "fst (Test ex_pkg \<lparr>args = [Fin (1 / 10), Fin 4], redis = bad_client, prefix = [],
          backoff = Linear (Fin 2)\<rparr> ''key'' (Fin 1) ())
     = Fail (Error ''invalid type returned from eval'')
   \<and> fst (Test_fn ex_pkg \<lparr>args = [Fin (1 / 10), Fin 4], redis = bad_client, prefix = [],
          backoff = Some (call_Backoff (Linear (Fin 2)))\<rparr> ''key'' (Fin 1) ())
     = Fail (Error ''limiter: invalid type returned from eval'')
   \<and> is_Fail (NewLimiter \<lparr>Redis = Some ex_client, Prefix = [], Backoff_field = None,
       Buckets = [Rate (Fin 1) NaN, Rate (Fin 2) (Fin (- 1))]\<rparr>)
   \<and> is_Return (New (Some ex_client) (Rate (Fin 1) NaN)
       (map WithAdditionalBucket [Rate (Fin 2) (Fin (- 1))] @ WithPrefix []
          # backoff_option None))"
  by (simp add: Test_def Test_fn_def exec_def bad_client_def ex_pkg_def validate_def
      validate_fn_def NewLimiter_def New_def sort_Slice_def less_rate_def flt_ne_def keep_def
      WithAdditionalBucket_def WithLinearBackoff_def WithPrefix_def)

subsection \<open>The atomic evaluator\<close>

lemma minimum_Min: "xs \<noteq> [] \<Longrightarrow> minimum xs = Min (set xs)"
proof (induction xs rule: minimum.induct)
  case 1
  then show ?case by simp
next
  case (2 x)
  then show ?case by simp
next
  case (3 x y ys)
  then show ?case by (simp add: min_def)
qed

lemma best_in: "best b cs \<in> set (b # cs)"
  by (induction cs arbitrary: b) auto

lemma best_start: "snd b \<le> snd (best b cs)"
proof (induction cs arbitrary: b)
  case Nil
  then show ?case by simp
next
  case (Cons d ds)
  have "snd b \<le> snd (if snd b < snd d then d else b)" by simp
  also have "\<dots> \<le> snd (best (if snd b < snd d then d else b) ds)" by (rule Cons.IH)
  finally show ?case by simp
qed

lemma best_max: "c \<in> set (b # cs) \<Longrightarrow> snd c \<le> snd (best b cs)"
proof (induction cs arbitrary: b)
  case Nil
  then show ?case by simp
next
  case (Cons d ds)
  let ?b = "if snd b < snd d then d else b"
  have start: "snd ?b \<le> snd (best ?b ds)" by (rule best_start)
  consider "c = b" | "c = d" | "c \<in> set ds" using Cons.prems by auto
  then show ?case
  proof cases
    case 1
    have "snd b \<le> snd ?b" by simp
    with start 1 show ?thesis by simp
  next
    case 2
    have "snd d \<le> snd ?b" by simp
    with start 2 show ?thesis by simp
  next
    case 3
    then have "c \<in> set (?b # ds)" by simp
    from Cons.IH [OF this] show ?thesis by simp
  qed
qed

lemma controlling_max:
  assumes "ws \<noteq> []"
  shows "\<exists>w\<in>set ws. fst w = controlling ws \<and> (\<forall>c\<in>set ws. snd c \<le> snd w)"
proof -
  obtain w rest where ws: "ws = w # rest" using assms by (cases ws) auto
  have "best w rest \<in> set ws" using best_in [of w rest] ws by simp
  moreover have "\<forall>c\<in>set ws. snd c \<le> snd (best w rest)"
    using best_max [of _ w rest] ws by simp
  ultimately show ?thesis
    using ws by (auto simp: controlling_def)
qed


lemma violations_empty:
  "filter (\<lambda>i. snd (tiers ! i) < projected_at now cost tiers st i) [0..<length tiers] = []
     \<longleftrightarrow> (\<forall>i<length tiers. projected_at now cost tiers st i \<le> snd (tiers ! i))"
  by (auto simp: filter_empty_conv not_less)

lemma evaluate_admit:
  assumes "\<forall>i<length tiers. projected_at now cost tiers st i \<le> snd (tiers ! i)"
  shows "evaluate now cost tiers st =
     (\<lparr>allowed = True,
        amount = minimum (map (\<lambda>i. snd (tiers ! i) - projected_at now cost tiers st i) [0..<length tiers]),
        tier_index = 0\<rparr>,
      (\<lambda>i. if i < length tiers then Some (projected_at now cost tiers st i, now) else st i))"
  using assms violations_empty [of tiers now cost st]
  by (simp add: evaluate_def Let_def)

lemma evaluate_deny:
  assumes "\<not> (\<forall>i<length tiers. projected_at now cost tiers st i \<le> snd (tiers ! i))"
  shows "\<exists>k<length tiers.
           evaluate now cost tiers st =
             (\<lparr>allowed = False, amount = projected_at now cost tiers st k - snd (tiers ! k),
                tier_index = k + 1\<rparr>, st)
         \<and> snd (tiers ! k) < projected_at now cost tiers st k
         \<and> (\<forall>j<length tiers. snd (tiers ! j) < projected_at now cost tiers st j \<longrightarrow>
               implied_wait now cost tiers st j \<le> implied_wait now cost tiers st k)"
proof -
  let ?vs = "filter (\<lambda>i. snd (tiers ! i) < projected_at now cost tiers st i) [0..<length tiers]"
  let ?ws = "map (\<lambda>i. (i, implied_wait now cost tiers st i)) ?vs"
  have ne: "?vs \<noteq> []"
    using assms violations_empty [of tiers now cost st] by simp
  then have "?ws \<noteq> []" by simp
  from controlling_max [OF this] obtain w
    where w: "w \<in> set ?ws" "fst w = controlling ?ws" "\<forall>c\<in>set ?ws. snd c \<le> snd w"
    by blast
  from w(1) obtain k where k: "k \<in> set ?vs" "w = (k, implied_wait now cost tiers st k)"
    by auto
  have kc: "controlling ?ws = k" using w(2) k(2) by simp
  have kv: "k < length tiers" "snd (tiers ! k) < projected_at now cost tiers st k"
    using k(1) by auto
  have mx: "implied_wait now cost tiers st j \<le> implied_wait now cost tiers st k"
    if "j < length tiers" "snd (tiers ! j) < projected_at now cost tiers st j" for j
  proof -
    have "j \<in> set ?vs" using that by simp
    then have "(j, implied_wait now cost tiers st j) \<in> set ?ws"
      unfolding set_map by (rule imageI)
    with w(3) k(2) show ?thesis by force
  qed
  have "evaluate now cost tiers st =
          (\<lparr>allowed = False, amount = projected_at now cost tiers st k - snd (tiers ! k),
             tier_index = k + 1\<rparr>, st)"
    using ne kc by (simp add: evaluate_def Let_def)
  with kv mx show ?thesis by blast
qed

text \<open>
  C1. For a cost greater than zero and a non-empty tier list: a tier's decayed level is
  \<open>max 0 (level - flow * max 0 (now - t))\<close>, and 0 where the tier has no state; its
  projected level is the decayed level plus the cost. The test is admitted exactly when
  every tier's projected level is at most its burst. On admission every tier's state
  becomes its projected level at the time \<open>now\<close>, and the least \<open>burst - projected\<close> over
  the tiers is returned. On denial the state is unchanged, and the tier returned is a
  violating tier whose \<open>(projected - burst) / flow\<close> is greatest among the violating
  tiers; its \<open>projected - burst\<close> is returned.
\<close>

theorem evaluator_admission:
  assumes "0 < cost" "tiers \<noteq> []"
  shows "decayed now tier None = 0
     \<and> decayed now tier (Some (level, t)) = max 0 (level - fst tier * max 0 (now - t))
     \<and> projected_at now cost tiers st i = decayed now (tiers ! i) (st i) + cost
     \<and> implied_wait now cost tiers st i
         = (projected_at now cost tiers st i - snd (tiers ! i)) / fst (tiers ! i)
     \<and> (allowed (fst (evaluate now cost tiers st)) \<longleftrightarrow>
          (\<forall>i<length tiers. projected_at now cost tiers st i \<le> snd (tiers ! i)))
     \<and> ((\<forall>i<length tiers. projected_at now cost tiers st i \<le> snd (tiers ! i)) \<longrightarrow>
          amount (fst (evaluate now cost tiers st))
            = Min ((\<lambda>i. snd (tiers ! i) - projected_at now cost tiers st i) ` {..<length tiers})
          \<and> (\<forall>i<length tiers.
                snd (evaluate now cost tiers st) i = Some (projected_at now cost tiers st i, now)))
     \<and> (\<not> (\<forall>i<length tiers. projected_at now cost tiers st i \<le> snd (tiers ! i)) \<longrightarrow>
          snd (evaluate now cost tiers st) = st
          \<and> (\<exists>k<length tiers.
                tier_index (fst (evaluate now cost tiers st)) = k + 1
                \<and> snd (tiers ! k) < projected_at now cost tiers st k
                \<and> (\<forall>j<length tiers. snd (tiers ! j) < projected_at now cost tiers st j \<longrightarrow>
                      implied_wait now cost tiers st j \<le> implied_wait now cost tiers st k)
                \<and> amount (fst (evaluate now cost tiers st))
                    = projected_at now cost tiers st k - snd (tiers ! k)))"
proof -
  let ?ok = "\<forall>i<length tiers. projected_at now cost tiers st i \<le> snd (tiers ! i)"
  have d0: "decayed now tier None = 0"
    by (simp add: decayed_def read_state_def)
  have d1: "decayed now tier (Some (level, t)) = max 0 (level - fst tier * max 0 (now - t))"
    by (simp add: decayed_def read_state_def)
  have p: "projected_at now cost tiers st i = decayed now (tiers ! i) (st i) + cost"
    by (simp add: projected_at_def projected_def)
  have w: "implied_wait now cost tiers st i
         = (projected_at now cost tiers st i - snd (tiers ! i)) / fst (tiers ! i)"
    by (simp add: implied_wait_def)
  have admit: "allowed (fst (evaluate now cost tiers st))
      \<and> amount (fst (evaluate now cost tiers st))
            = Min ((\<lambda>i. snd (tiers ! i) - projected_at now cost tiers st i) ` {..<length tiers})
      \<and> (\<forall>i<length tiers.
                snd (evaluate now cost tiers st) i = Some (projected_at now cost tiers st i, now))"
    if ok: ?ok
  proof -
    have ne: "map (\<lambda>i. snd (tiers ! i) - projected_at now cost tiers st i) [0..<length tiers] \<noteq> []"
      using assms(2) by simp
    have "set (map (\<lambda>i. snd (tiers ! i) - projected_at now cost tiers st i) [0..<length tiers])
        = (\<lambda>i. snd (tiers ! i) - projected_at now cost tiers st i) ` {..<length tiers}"
      by (simp add: atLeast0LessThan)
    then show ?thesis
      unfolding evaluate_admit [OF ok] using minimum_Min [OF ne] by simp
  qed
  have deny: "\<not> allowed (fst (evaluate now cost tiers st))
      \<and> snd (evaluate now cost tiers st) = st
      \<and> (\<exists>k<length tiers.
                tier_index (fst (evaluate now cost tiers st)) = k + 1
                \<and> snd (tiers ! k) < projected_at now cost tiers st k
                \<and> (\<forall>j<length tiers. snd (tiers ! j) < projected_at now cost tiers st j \<longrightarrow>
                      implied_wait now cost tiers st j \<le> implied_wait now cost tiers st k)
                \<and> amount (fst (evaluate now cost tiers st))
                    = projected_at now cost tiers st k - snd (tiers ! k))"
    if no: "\<not> ?ok"
  proof -
    from evaluate_deny [OF no] obtain k where k: "k < length tiers"
      "evaluate now cost tiers st =
             (\<lparr>allowed = False, amount = projected_at now cost tiers st k - snd (tiers ! k),
                tier_index = k + 1\<rparr>, st)"
      "snd (tiers ! k) < projected_at now cost tiers st k"
      "\<forall>j<length tiers. snd (tiers ! j) < projected_at now cost tiers st j \<longrightarrow>
               implied_wait now cost tiers st j \<le> implied_wait now cost tiers st k"
      by blast
    show ?thesis
      unfolding k(2) using k(1,3,4) by auto
  qed
  have iff: "allowed (fst (evaluate now cost tiers st)) \<longleftrightarrow> ?ok"
    using admit deny by blast
  show ?thesis
    using d0 d1 p w iff admit deny by blast
qed

text \<open>The tier of the repository's test \<^verbatim>\<open>TestBasicRateMetrics\<close>, a flow of 1/2 and a
  burst of 9, at a cost of 1: the first test of a key, and a test one second after the
  level has reached the burst.\<close>

theorem evaluator_admission_witness:
  "fst (evaluate 1 1 [(1 / 2, 9)] (\<lambda>i. None)) = \<lparr>allowed = True, amount = 8, tier_index = 0\<rparr>
   \<and> snd (evaluate 1 1 [(1 / 2, 9)] (\<lambda>i. None)) 0 = Some (1, 1)
   \<and> fst (evaluate 17 1 [(1 / 2, 9)] (\<lambda>i. Some (9, 16)))
     = \<lparr>allowed = False, amount = 1 / 2, tier_index = 1\<rparr>
   \<and> snd (evaluate 17 1 [(1 / 2, 9)] (\<lambda>i. Some (9, 16))) = (\<lambda>i. Some (9, 16))
   \<and> fst (evaluate 1 1 [(1 / 4, 18), (1 / 2, 9)] (\<lambda>i. if i = 0 then Some (18, 0) else Some (9, 0)))
     = \<lparr>allowed = False, amount = 3 / 4, tier_index = 1\<rparr>"
proof -
  have c: "(0 :: real) < 1" and t: "[(1 / 2, 9 :: real)] \<noteq> ([] :: (real \<times> real) list)"
    by simp_all
  note th = evaluator_admission [OF c t, of 17 "(1 / 2, 9)" 9 16 "\<lambda>i. Some (9, 16)" 0]
  have no: "\<not> (\<forall>i<length [(1 / 2, 9 :: real)].
      projected_at 17 1 [(1 / 2, 9)] (\<lambda>i. Some (9, 16)) i \<le> snd ([(1 / 2, 9 :: real)] ! i))"
    by (simp add: projected_at_def projected_def decayed_def read_state_def)
  have same: "snd (evaluate 17 1 [(1 / 2, 9)] (\<lambda>i. Some (9, 16))) = (\<lambda>i. Some (9, 16))"
    using th no by blast
  have 1: "fst (evaluate 1 1 [(1 / 2, 9)] (\<lambda>i. None)) = \<lparr>allowed = True, amount = 8, tier_index = 0\<rparr>"
    "snd (evaluate 1 1 [(1 / 2, 9)] (\<lambda>i. None)) 0 = Some (1, 1)"
    by (simp_all add: evaluate_def projected_at_def projected_def decayed_def read_state_def)
  have 2: "fst (evaluate 17 1 [(1 / 2, 9)] (\<lambda>i. Some (9, 16)))
     = \<lparr>allowed = False, amount = 1 / 2, tier_index = 1\<rparr>"
    by (simp add: evaluate_def projected_at_def projected_def decayed_def read_state_def
        controlling_def implied_wait_def)
  have 3: "fst (evaluate 1 1 [(1 / 4, 18), (1 / 2, 9)] (\<lambda>i. if i = 0 then Some (18, 0) else Some (9, 0)))
     = \<lparr>allowed = False, amount = 3 / 4, tier_index = 1\<rparr>"
    by (simp add: evaluate_def projected_at_def projected_def decayed_def read_state_def
        controlling_def implied_wait_def)
  show ?thesis
    using 1 2 3 same by simp
qed

end
